theory Spec2Isabelle
  imports Main "HOL-Library.Signed_Division"
begin

section \<open>Data model\<close>

text \<open>
  A column value as \<^verbatim>\<open>database/sql\<close> passes it: \<^verbatim>\<open>nil\<close>, an integer, a string or a
  byte slice. Byte slices and strings are both byte lists.
\<close>

datatype val = VNull | VInt int | VText string | VBlob string

text \<open>
  A decoded JSON value (\<^verbatim>\<open>interface{}\<close> after \<^verbatim>\<open>json.Unmarshal\<close>) and the nested
  \<^verbatim>\<open>map[string]interface{}\<close> payloads the importer builds. \<open>JNum n\<close> is the number
  with the integral value \<open>n\<close>; the importer reads numbers only as sizes and counts.
\<close>

datatype json = JNull | JBool bool | JNum int | JStr string | JArr "json list"
  | JObj "(string \<times> json) list"

text \<open>Instants (\<^verbatim>\<open>time.Time\<close>) are integers; \<open>0\<close> is Go's zero time.\<close>

type_synonym gotime = int

record UniversalAttachment =
  att_ID :: string
  att_Filename :: string
  att_URL :: string
  att_MimeType :: string
  att_Size :: int

record UniversalMention =
  men_UserID :: string
  men_Username :: string
  men_Start :: int
  men_Length :: int

record UniversalReaction =
  rea_Emoji :: string
  rea_Count :: int
  rea_UserIDs :: "string list"

record QuotedMessage =
  q_SharedMsgID :: string
  q_SentAt :: gotime
  q_Content :: string
  q_IsSent :: bool

record UniversalAuthor =
  au_ID :: string
  au_Username :: string
  au_DisplayName :: string
  au_AvatarURL :: "string option"
  au_IsBot :: bool

text \<open>
  \<^verbatim>\<open>UniversalMessage\<close>. The two \<^verbatim>\<open>PlatformData\<close> maps are left out: they carry raw
  export data through and no insert function reads them.
\<close>

record UniversalMessage =
  um_ID :: string
  um_Content :: string
  um_Timestamp :: gotime
  um_EditedAt :: "gotime option"
  um_Author :: UniversalAuthor
  um_MessageType :: string
  um_Platform :: string
  um_Attachments :: "UniversalAttachment list"
  um_Mentions :: "UniversalMention list"
  um_Reactions :: "UniversalReaction list"
  um_ReplyToID :: "string option"
  um_QuotedMessage :: "QuotedMessage option"
  um_IsPinned :: bool
  um_IsSent :: bool

record DiscordAuthor =
  da_ID :: string
  da_Name :: string
  da_Discriminator :: string
  da_Nickname :: string
  da_IsBot :: bool
  da_AvatarURL :: string

record DiscordMention =
  dm_ID :: string
  dm_Name :: string

record DiscordReference =
  ref_MessageID :: string
  ref_ChannelID :: string

record DiscordMessage =
  d_ID :: string
  d_Type :: string
  d_Timestamp :: string
  d_TimestampEdited :: "string option"
  d_IsPinned :: bool
  d_Content :: string
  d_Author :: DiscordAuthor
  d_Attachments :: "json list"
  d_Reactions :: "json list"
  d_Mentions :: "DiscordMention list"
  d_Reference :: "DiscordReference option"

record MessageInsertData =
  mi_MessageID :: int
  mi_ChatItemID :: int
  mi_SharedMsgID :: string
  mi_Message :: UniversalMessage

record BulkInsertData =
  bd_Messages :: "MessageInsertData list"
  bd_StartMessageID :: int
  bd_StartChatItemID :: int
  bd_StartDeliveryRowID :: int
  bd_DiscordToSharedMsgID :: "string \<rightharpoonup> string"
  bd_DiscordMessages :: "string \<rightharpoonup> DiscordMessage"

section \<open>Errors\<close>

text \<open>
  Every Go \<^verbatim>\<open>error\<close> value and every runtime panic of the importer is a value of
  \<open>error\<close>. \<open>Wrap\<close> is \<^verbatim>\<open>fmt.Errorf("...: %w", err)\<close>.
\<close>

datatype error =
    Panic string
  | SqlError string
  | MarshalError
  | FileError string
  | Wrap string error

definition isPanic :: "error \<Rightarrow> bool" where
  "isPanic e = (case e of Panic _ \<Rightarrow> True | _ \<Rightarrow> False)"

text \<open>
  A panic is not an error value: it unwinds through every \<^verbatim>\<open>if err != nil\<close>, so the
  wrapping code never sees it.
\<close>

definition wrapErr :: "string \<Rightarrow> error \<Rightarrow> error" where
  "wrapErr msg e = (if isPanic e then e else Wrap msg e)"

section \<open>Machine integers\<close>

text \<open>
  Go's \<^verbatim>\<open>int\<close> and \<^verbatim>\<open>int64\<close> and the engine's \<^verbatim>\<open>INTEGER\<close> have 64 bits. \<open>wrap64\<close> is
  the value a Go sum takes: \<^verbatim>\<open>a + b\<close> is \<open>wrap64 (a + b)\<close>.
\<close>

definition int64 :: "int \<Rightarrow> bool" where
  "int64 n = (- 9223372036854775808 \<le> n \<and> n < 9223372036854775808)"

definition wrap64 :: "int \<Rightarrow> int" where
  "wrap64 n = (n + 9223372036854775808) mod 18446744073709551616 - 9223372036854775808"

section \<open>The database engine and the outside world\<close>

text \<open>
  A table is its declared column list and its rows. Each row carries its hidden
  \<^verbatim>\<open>rowid\<close> and its values, aligned with the columns. The engine resolves a column
  name against the declared columns, and the name \<^verbatim>\<open>rowid\<close> against the hidden rowid
  when no declared column has that name. The alias that a declared
  \<^verbatim>\<open>INTEGER PRIMARY KEY\<close> makes of the rowid is left out: the importer reads a hidden
  rowid of \<^verbatim>\<open>chat_item_messages\<close> only.
\<close>

record tbl =
  cols :: "string list"
  rws :: "(int \<times> val list) list"

type_synonym database = "string \<rightharpoonup> tbl"

text \<open>Every round trip to the engine, in the order the importer makes them.\<close>

datatype stmt =
    Begin
  | Commit
  | Rollback
  | TableInfo string
  | SelectMax string string
  | SelectCoalesceMax string string int
  | SelectRow string "string list" string int
  | InsertRows string "string list" "val list list"

text \<open>
  What the importer does not own: the Go library functions it calls, the file system,
  the media tools and the engine's own reasons to refuse a statement (constraints,
  I/O). \<open>rejects n d st\<close> says that the engine refuses statement \<open>st\<close> as round trip
  number \<open>n\<close> on database \<open>d\<close>. \<open>videoThumbnail\<close> is the outcome of
  \<^verbatim>\<open>generateVideoThumbnail\<close>, which runs external processes. \<open>scanMax vs\<close> and
  \<open>scanMaxPlus vs k\<close> are what \<^verbatim>\<open>SELECT MAX(c)\<close> and \<^verbatim>\<open>SELECT COALESCE(MAX(c), 0) + k\<close>
  scanned into an integer give for a column with the values \<open>vs\<close> when some value is
  no 64-bit integer: the engine's type order and coercions and \<^verbatim>\<open>strconv.ParseInt\<close>
  decide, and an answer outside the 64-bit range cannot be scanned. \<open>floatOverflow n\<close> is Go's conversion of a \<^verbatim>\<open>float64\<close> outside the 64-bit
  range, which the language leaves to the implementation.
\<close>

record env =
  toLower :: "string \<Rightarrow> string"
  filepathExt :: "string \<Rightarrow> string"
  filepathJoin :: "string \<Rightarrow> string \<Rightarrow> string"
  base64Encode :: "string \<Rightarrow> string"
  timeFormat :: "string \<Rightarrow> gotime \<Rightarrow> string"
  timeParse :: "string \<Rightarrow> gotime option"
  jsonMarshal :: "json \<Rightarrow> string option"
  sprintV :: "json \<Rightarrow> string"
  utf8Runes :: "string \<Rightarrow> int list"
  runeString :: "int \<Rightarrow> string"
  readFile :: "string \<Rightarrow> string option"
  statNotExist :: "string \<Rightarrow> bool"
  videoThumbnail :: "string \<Rightarrow> (string \<times> int) option"
  mkdirFails :: "string \<Rightarrow> bool"
  copyFails :: "string \<Rightarrow> string \<Rightarrow> bool"
  rejects :: "nat \<Rightarrow> database \<Rightarrow> stmt \<Rightarrow> bool"
  now :: "nat \<Rightarrow> gotime"
  scanMax :: "val list \<Rightarrow> error + int option"
  scanMaxPlus :: "val list \<Rightarrow> int \<Rightarrow> error + int"
  floatOverflow :: "int \<Rightarrow> int"

text \<open>
  The state the importer threads through: the database as the open connection sees
  it, the statements sent so far, and the number of clock readings taken.
\<close>

record world =
  db :: database
  trace :: "stmt list"
  ticks :: nat

definition send :: "env \<Rightarrow> stmt \<Rightarrow> world \<Rightarrow> bool \<times> world" where
  "send e st w = (rejects e (length (trace w)) (db w) st, w\<lparr>trace := trace w @ [st]\<rparr>)"

definition timeNow :: "env \<Rightarrow> world \<Rightarrow> gotime \<times> world" where
  "timeNow e w = (now e (ticks w), w\<lparr>ticks := Suc (ticks w)\<rparr>)"

definition cell :: "string list \<Rightarrow> val list \<Rightarrow> string \<Rightarrow> val" where
  "cell cs r c = (case map_of (zip cs r) c of Some v \<Rightarrow> v | None \<Rightarrow> VNull)"

fun maxInts :: "val list \<Rightarrow> int option" where
  "maxInts [] = None"
| "maxInts (VInt n # vs) = (case maxInts vs of None \<Rightarrow> Some n | Some m \<Rightarrow> Some (max n m))"
| "maxInts (v # vs) = maxInts vs"

fun isInt64OrNull :: "val \<Rightarrow> bool" where
  "isInt64OrNull VNull = True"
| "isInt64OrNull (VInt n) = int64 n"
| "isInt64OrNull v = False"

text \<open>What a row holds under a column name that the table resolves.\<close>

definition resolves :: "tbl \<Rightarrow> string \<Rightarrow> bool" where
  "resolves tb c = (c \<in> set (cols tb) \<or> c = ''rowid'')"

definition fieldOf :: "tbl \<Rightarrow> string \<Rightarrow> int \<times> val list \<Rightarrow> val" where
  "fieldOf tb c row = (if c \<in> set (cols tb) then cell (cols tb) (snd row) c else VInt (fst row))"

text \<open>
  \<^verbatim>\<open>SELECT MAX(c) FROM t\<close> scanned into \<^verbatim>\<open>sql.NullInt64\<close>: \<open>None\<close> is SQL \<^verbatim>\<open>NULL\<close>. A
  missing table or column is an error.
\<close>

definition evalMax :: "env \<Rightarrow> database \<Rightarrow> string \<Rightarrow> string \<Rightarrow> error + int option" where
  "evalMax e d t c =
     (case d t of
        None \<Rightarrow> Inl (SqlError ''no such table'')
      | Some tb \<Rightarrow>
          if \<not> resolves tb c then Inl (SqlError ''no such column'')
          else
            let vs = map (fieldOf tb c) (rws tb) in
            if list_all isInt64OrNull vs then Inr (maxInts vs)
            else
              (case scanMax e vs of
                 Inr (Some n) \<Rightarrow>
                   if int64 n then Inr (Some n) else Inl (SqlError ''converting driver value'')
               | other \<Rightarrow> other))"

definition queryMax :: "env \<Rightarrow> string \<Rightarrow> string \<Rightarrow> world \<Rightarrow> (error + int option) \<times> world" where
  "queryMax e t c w =
     (case send e (SelectMax t c) w of
        (True, w') \<Rightarrow> (Inl (SqlError ''statement refused''), w')
      | (False, w') \<Rightarrow> (evalMax e (db w) t c, w'))"

text \<open>
  \<^verbatim>\<open>SELECT COALESCE(MAX(c), 0) + k FROM t\<close> scanned into an \<^verbatim>\<open>int\<close>. A sum outside
  the 64-bit range is a \<^verbatim>\<open>REAL\<close> for the engine, and the scan of it fails.
\<close>

definition evalCoalesceMax :: "env \<Rightarrow> database \<Rightarrow> string \<Rightarrow> string \<Rightarrow> int \<Rightarrow> error + int" where
  "evalCoalesceMax e d t c k =
     (case d t of
        None \<Rightarrow> Inl (SqlError ''no such table'')
      | Some tb \<Rightarrow>
          if \<not> resolves tb c then Inl (SqlError ''no such column'')
          else
            let vs = map (fieldOf tb c) (rws tb) in
            if list_all isInt64OrNull vs then
              let n = (case maxInts vs of None \<Rightarrow> 0 | Some m \<Rightarrow> m) + k in
              if int64 n then Inr n else Inl (SqlError ''converting driver value'')
            else
              (case scanMaxPlus e vs k of
                 Inr n \<Rightarrow> if int64 n then Inr n else Inl (SqlError ''converting driver value'')
               | Inl err \<Rightarrow> Inl err))"

definition queryCoalesceMax ::
  "env \<Rightarrow> string \<Rightarrow> string \<Rightarrow> int \<Rightarrow> world \<Rightarrow> (error + int) \<times> world" where
  "queryCoalesceMax e t c k w =
     (case send e (SelectCoalesceMax t c k) w of
        (True, w') \<Rightarrow> (Inl (SqlError ''statement refused''), w')
      | (False, w') \<Rightarrow> (evalCoalesceMax e (db w) t c k, w'))"

text \<open>
  \<^verbatim>\<open>SELECT cs FROM t WHERE c = ?\<close> read with \<^verbatim>\<open>QueryRow(...).Scan\<close>: the first
  matching row, an error when there is none.
\<close>

definition querySelectRow ::
  "env \<Rightarrow> string \<Rightarrow> string list \<Rightarrow> string \<Rightarrow> int \<Rightarrow> world \<Rightarrow> (error + val list) \<times> world" where
  "querySelectRow e t cs c k w =
     (case send e (SelectRow t cs c k) w of
        (True, w') \<Rightarrow> (Inl (SqlError ''statement refused''), w')
      | (False, w') \<Rightarrow>
          (case db w t of
             None \<Rightarrow> (Inl (SqlError ''no such table''), w')
           | Some tb \<Rightarrow>
               if cs = [] \<or> \<not> list_all (resolves tb) (c # cs)
               then (Inl (SqlError ''syntax error or no such column''), w')
               else
                 (case filter (\<lambda>r. fieldOf tb c r = VInt k) (rws tb) of
                    [] \<Rightarrow> (Inl (SqlError ''no rows in result set''), w')
                  | r # _ \<Rightarrow> (Inr (map (\<lambda>c. fieldOf tb c r) cs), w'))))"

text \<open>
  \<^verbatim>\<open>INSERT INTO t (cs) VALUES (...), ...\<close>: an empty column or value list is a syntax
  error; a column the statement does not name is stored as \<^verbatim>\<open>NULL\<close>. A row whose
  statement gives no rowid takes one more than the largest rowid of the table.
\<close>

definition nextRowid :: "(int \<times> val list) list \<Rightarrow> int" where
  "nextRowid rs = (case map fst rs of [] \<Rightarrow> 1 | n # ns \<Rightarrow> fold max ns n + 1)"

definition appendRow :: "string list \<Rightarrow> val list \<Rightarrow> tbl \<Rightarrow> tbl" where
  "appendRow cs r tb =
     tb\<lparr>rws := rws tb @
       [(case (if ''rowid'' \<in> set (cols tb) then VNull else cell cs r ''rowid'') of
           VInt n \<Rightarrow> n
         | _ \<Rightarrow> nextRowid (rws tb),
         map (cell cs r) (cols tb))]\<rparr>"

definition execInsert ::
  "env \<Rightarrow> string \<Rightarrow> string list \<Rightarrow> val list list \<Rightarrow> world \<Rightarrow> error option \<times> world" where
  "execInsert e t cs rows w =
     (case send e (InsertRows t cs rows) w of
        (True, w') \<Rightarrow> (Some (SqlError ''statement refused''), w')
      | (False, w') \<Rightarrow>
          (case db w t of
             None \<Rightarrow> (Some (SqlError ''no such table''), w')
           | Some tb \<Rightarrow>
               if cs = [] \<or> rows = [] \<or> \<not> distinct cs \<or> \<not> list_all (resolves tb) cs
                  \<or> \<not> list_all (\<lambda>r. length r = length cs) rows
               then (Some (SqlError ''syntax error or no such column''), w')
               else (None, w'\<lparr>db := (db w)(t \<mapsto> fold (appendRow cs) rows tb)\<rparr>)))"

text \<open>\<^verbatim>\<open>getTableColumns\<close>: \<^verbatim>\<open>PRAGMA table_info\<close> of a missing table has no rows.\<close>

definition getTableColumns :: "env \<Rightarrow> string \<Rightarrow> world \<Rightarrow> (error + string list) \<times> world" where
  "getTableColumns e tableName w =
     (case send e (TableInfo tableName) w of
        (True, w') \<Rightarrow> (Inl (SqlError ''statement refused''), w')
      | (False, w') \<Rightarrow>
          (Inr (case db w tableName of None \<Rightarrow> [] | Some tb \<Rightarrow> cols tb), w'))"

text \<open>
  \<^verbatim>\<open>getTemplateRow\<close>. A Go map is an association list read with \<open>map_of\<close>; the
  template is empty exactly when the table has no key.
\<close>

definition getTemplateRow ::
  "env \<Rightarrow> string \<Rightarrow> string \<Rightarrow> world \<Rightarrow> (error + (string \<times> val) list) \<times> world" where
  "getTemplateRow e tableName idColumn w =
     (case queryMax e tableName idColumn w of
        (Inl err, w1) \<Rightarrow> (Inl (wrapErr (''failed to get template '' @ idColumn) err), w1)
      | (Inr None, w1) \<Rightarrow> (Inr [], w1)
      | (Inr (Some templateID), w1) \<Rightarrow>
          (case getTableColumns e tableName w1 of
             (Inl err, w2) \<Rightarrow> (Inl err, w2)
           | (Inr columns, w2) \<Rightarrow>
               (case querySelectRow e tableName columns idColumn templateID w2 of
                  (Inl err, w3) \<Rightarrow> (Inl err, w3)
                | (Inr values, w3) \<Rightarrow> (Inr (rev (zip columns values)), w3))))"

section \<open>Chunking\<close>

text \<open>
  \<^verbatim>\<open>calculateChunkSize\<close>: Go's \<^verbatim>\<open>int\<close> division truncates towards zero
  (\<open>sdiv\<close>) and panics on a zero divisor. The dividend is positive at the division,
  so the 64-bit quotient cannot overflow.
\<close>

definition calculateChunkSize :: "int \<Rightarrow> int \<Rightarrow> error + int" where
  "calculateChunkSize numColumns maxParams =
     (let maxParams = (if maxParams \<le> 0 then 900 else maxParams) in
      if numColumns = 0 then Inl (Panic ''integer divide by zero'')
      else
        let chunkSize = maxParams sdiv numColumns in
        Inr (if chunkSize < 1 then 1 else chunkSize))"

text \<open>
  The loop \<^verbatim>\<open>for i := 0; i < len(xs); i += chunkSize\<close> shared by the four bulk
  insert functions. The body receives \<open>i\<close>, \<open>end\<close> and the slice \<^verbatim>\<open>xs[i:end]\<close>
  and may return an error, which leaves the loop. Slicing panics when the bounds are
  out of order. A loop that never returns is \<open>None\<close>.
\<close>

partial_function (option) chunkLoop ::
  "(int \<Rightarrow> int \<Rightarrow> 'a list \<Rightarrow> 's \<Rightarrow> error option \<times> 's) \<Rightarrow> 'a list \<Rightarrow> int \<Rightarrow> int \<Rightarrow> 's
     \<Rightarrow> (error option \<times> 's) option" where
  "chunkLoop body xs chunkSize i s =
     (if i < int (length xs) then
        let end = (if i + chunkSize > int (length xs) then int (length xs) else i + chunkSize) in
        if i < 0 \<or> end < i then Some (Some (Panic ''slice bounds out of range''), s)
        else
          case body i end (take (nat (end - i)) (drop (nat i) xs)) s of
            (Some e, s') \<Rightarrow> Some (Some e, s')
          | (None, s') \<Rightarrow> chunkLoop body xs chunkSize (i + chunkSize) s'
      else Some (None, s))"

declare chunkLoop.simps [code]

section \<open>Row synthesis\<close>

text \<open>
  The loop every insert function runs over the introspected columns: the override
  when the map has the column, else the template's entry when the template is not
  empty (a Go map yields \<^verbatim>\<open>nil\<close> for a key it lacks), else \<^verbatim>\<open>nil\<close>.
\<close>

definition buildRowValues ::
  "string list \<Rightarrow> (string \<times> val) list \<Rightarrow> (string \<times> val) list \<Rightarrow> val list" where
  "buildRowValues columns overrideFields templateRow =
     map (\<lambda>col.
       case map_of overrideFields col of
         Some v \<Rightarrow> v
       | None \<Rightarrow>
           if templateRow \<noteq> [] then
             (case map_of templateRow col of Some v \<Rightarrow> v | None \<Rightarrow> VNull)
           else VNull) columns"

text \<open>The rows of one chunk, \<^verbatim>\<open>for j, msgData := range chunk\<close>, left at the first error.\<close>

fun chunkRows :: "(int \<Rightarrow> 'a \<Rightarrow> error + val list) \<Rightarrow> int \<Rightarrow> 'a list \<Rightarrow> error + val list list" where
  "chunkRows f j [] = Inr []"
| "chunkRows f j (x # xs) =
     (case f j x of
        Inl e \<Rightarrow> Inl e
      | Inr r \<Rightarrow>
          (case chunkRows f (j + 1) xs of
             Inl e \<Rightarrow> Inl e
           | Inr rs \<Rightarrow> Inr (r # rs)))"

definition sqlTime :: string where
  "sqlTime = ''2006-01-02 15:04:05''"

definition RFC3339 :: string where
  "RFC3339 = ''2006-01-02T15:04:05Z07:00''"

subsection \<open>Media\<close>

definition encodeImageToBase64 :: "env \<Rightarrow> string \<Rightarrow> error + string" where
  "encodeImageToBase64 e imagePath =
     (case readFile e imagePath of
        None \<Rightarrow> Inl (Wrap ''failed to read image file'' (FileError imagePath))
      | Some imageData \<Rightarrow>
          let ext = toLower e (filepathExt e imagePath);
              mimeType =
                (if ext = ''.jpg'' then ''image/jpg''
                 else if ext = ''.jpeg'' then ''image/jpeg''
                 else if ext = ''.png'' then ''image/png''
                 else if ext = ''.gif'' then ''image/gif''
                 else ''image/jpg'')
          in Inr (''data:'' @ mimeType @ '';base64,'' @ base64Encode e imageData))"

definition generateVideoThumbnail :: "env \<Rightarrow> string \<Rightarrow> error + string \<times> int" where
  "generateVideoThumbnail e videoPath =
     (case videoThumbnail e videoPath of
        None \<Rightarrow> Inl (FileError ''failed to generate thumbnail'')
      | Some r \<Rightarrow> Inr r)"

definition fileInfoOf :: "UniversalAttachment \<Rightarrow> json" where
  "fileInfoOf attachment =
     JObj [(''fileDescr'', JObj [(''fileDescrComplete'', JBool False),
                                 (''fileDescrPartNo'', JNum 0),
                                 (''fileDescrText'', JStr [])]),
           (''fileName'', JStr (att_Filename attachment)),
           (''fileSize'', JNum (att_Size attachment))]"

definition imageFallbackText :: "UniversalAttachment \<Rightarrow> UniversalMessage \<Rightarrow> string" where
  "imageFallbackText attachment msg =
     ''[Image: '' @ att_Filename attachment @ '']'' @
       (if um_Content msg \<noteq> [] then CHR 0x0A # um_Content msg else [])"

subsection \<open>messages\<close>

text \<open>The \<^verbatim>\<open>content\<close> and \<^verbatim>\<open>fileInfo\<close> maps of \<^verbatim>\<open>bulkInsertMessages\<close>.\<close>

definition messageContent :: "env \<Rightarrow> string \<Rightarrow> UniversalMessage \<Rightarrow> json \<times> json option" where
  "messageContent e jsonDir msg =
     (case um_Attachments msg of
        [] \<Rightarrow> (JObj [(''text'', JStr (um_Content msg)), (''type'', JStr ''text'')], None)
      | attachment # _ \<Rightarrow>
          if um_MessageType msg = ''image'' then
            (case encodeImageToBase64 e (filepathJoin e jsonDir (att_URL attachment)) of
               Inl _ \<Rightarrow>
                 (JObj [(''text'', JStr (imageFallbackText attachment msg)),
                        (''type'', JStr ''text'')], None)
             | Inr imageBase64 \<Rightarrow>
                 (JObj [(''image'', JStr imageBase64), (''text'', JStr (um_Content msg)),
                        (''type'', JStr ''image'')], Some (fileInfoOf attachment)))
          else if um_MessageType msg = ''video'' then
            (case generateVideoThumbnail e (filepathJoin e jsonDir (att_URL attachment)) of
               Inl _ \<Rightarrow>
                 (JObj [(''type'', JStr ''file''), (''text'', JStr (um_Content msg))],
                  Some (fileInfoOf attachment))
             | Inr (thumbnailBase64, duration) \<Rightarrow>
                 (JObj [(''type'', JStr ''video''), (''text'', JStr (um_Content msg)),
                        (''image'', JStr thumbnailBase64), (''duration'', JNum duration)],
                  Some (fileInfoOf attachment)))
          else if um_MessageType msg = ''voice'' then
            (JObj [(''text'', JStr (um_Content msg)), (''type'', JStr ''file'')],
             Some (fileInfoOf attachment))
          else
            (JObj [(''text'', JStr (um_Content msg)), (''type'', JStr ''file'')],
             Some (fileInfoOf attachment)))"

definition quoteParam :: "env \<Rightarrow> QuotedMessage \<Rightarrow> json" where
  "quoteParam e q =
     JObj [(''content'', JObj [(''text'', JStr (q_Content q)), (''type'', JStr ''text'')]),
           (''msgRef'', JObj [(''msgId'', JStr (base64Encode e (q_SharedMsgID q))),
                              (''sent'', JBool False),
                              (''sentAt'', JStr (timeFormat e RFC3339 (q_SentAt q)))])]"

definition msgBody :: "env \<Rightarrow> string \<Rightarrow> UniversalMessage \<Rightarrow> json" where
  "msgBody e jsonDir msg =
     (let encodedMsgID = base64Encode e (um_ID msg);
          (content, fileInfo) = messageContent e jsonDir msg;
          params = [(''content'', content)]
            @ (case fileInfo of None \<Rightarrow> [] | Some f \<Rightarrow> [(''file'', f)])
            @ (case um_QuotedMessage msg of None \<Rightarrow> [] | Some q \<Rightarrow> [(''quote'', quoteParam e q)])
      in JObj [(''v'', JStr ''1-14''), (''msgId'', JStr encodedMsgID),
               (''event'', JStr ''x.msg.new''), (''params'', JObj params)])"

definition messageOverrides :: "env \<Rightarrow> MessageInsertData \<Rightarrow> string \<Rightarrow> (string \<times> val) list" where
  "messageOverrides e msgData msgBodyBytes =
     (let msg = mi_Message msgData;
          msgSent = (if um_IsSent msg then 1 else 0 :: int)
      in [(''message_id'', VInt (mi_MessageID msgData)),
          (''chat_msg_event'', VText ''x.msg.new''),
          (''shared_msg_id'', VBlob (mi_SharedMsgID msgData)),
          (''msg_body'', VBlob msgBodyBytes),
          (''msg_sent'', VInt msgSent),
          (''created_at'', VText (timeFormat e sqlTime (um_Timestamp msg))),
          (''updated_at'', VText (timeFormat e sqlTime (um_Timestamp msg))),
          (''shared_msg_id_user'', if msgSent = 1 then VInt 1 else VNull)])"

definition messageRow ::
  "env \<Rightarrow> string \<Rightarrow> string list \<Rightarrow> (string \<times> val) list \<Rightarrow> MessageInsertData \<Rightarrow> error + val list" where
  "messageRow e jsonDir columns templateRow msgData =
     (case jsonMarshal e (msgBody e jsonDir (mi_Message msgData)) of
        None \<Rightarrow> Inl (Wrap ''failed to marshal message body'' MarshalError)
      | Some msgBodyBytes \<Rightarrow>
          Inr (buildRowValues columns (messageOverrides e msgData msgBodyBytes) templateRow))"

definition messagesChunk ::
  "env \<Rightarrow> string \<Rightarrow> string list \<Rightarrow> (string \<times> val) list
     \<Rightarrow> int \<Rightarrow> int \<Rightarrow> MessageInsertData list \<Rightarrow> world \<Rightarrow> error option \<times> world" where
  "messagesChunk e jsonDir columns templateRow i end chunk w =
     (case chunkRows (\<lambda>j. messageRow e jsonDir columns templateRow) 0 chunk of
        Inl err \<Rightarrow> (Some err, w)
      | Inr rows \<Rightarrow>
          (case execInsert e ''messages'' columns rows w of
             (Some err, w') \<Rightarrow> (Some (wrapErr ''failed to execute chunk'' err), w')
           | (None, w') \<Rightarrow> (None, w')))"

definition bulkInsertMessages ::
  "env \<Rightarrow> BulkInsertData \<Rightarrow> string \<Rightarrow> int \<Rightarrow> world \<Rightarrow> (error option \<times> world) option" where
  "bulkInsertMessages e data jsonDir contactID w =
     (case getTemplateRow e ''messages'' ''message_id'' w of
        (Inl err, w1) \<Rightarrow> Some (Some (wrapErr ''failed to get template row'' err), w1)
      | (Inr templateRow, w1) \<Rightarrow>
          (case getTableColumns e ''messages'' w1 of
             (Inl err, w2) \<Rightarrow> Some (Some err, w2)
           | (Inr columns, w2) \<Rightarrow>
               (case calculateChunkSize (int (length columns)) 900 of
                  Inl err \<Rightarrow> Some (Some err, w2)
                | Inr chunkSize \<Rightarrow>
                    chunkLoop (messagesChunk e jsonDir columns templateRow)
                      (bd_Messages data) chunkSize 0 w2)))"

subsection \<open>chat\_item\_messages\<close>

definition chatItemMessageOverrides ::
  "env \<Rightarrow> int \<Rightarrow> int \<Rightarrow> int \<Rightarrow> MessageInsertData \<Rightarrow> (string \<times> val) list" where
  "chatItemMessageOverrides e nextRowID i j msgData =
     (let msg = mi_Message msgData
      in [(''rowid'', VInt (wrap64 (wrap64 (nextRowID + i) + j))),
          (''chat_item_id'', VInt (mi_ChatItemID msgData)),
          (''message_id'', VInt (mi_MessageID msgData)),
          (''created_at'', VText (timeFormat e sqlTime (um_Timestamp msg))),
          (''updated_at'', VText (timeFormat e sqlTime (um_Timestamp msg)))])"

definition chatItemMessagesChunk ::
  "env \<Rightarrow> string list \<Rightarrow> (string \<times> val) list \<Rightarrow> int
     \<Rightarrow> int \<Rightarrow> int \<Rightarrow> MessageInsertData list \<Rightarrow> world \<Rightarrow> error option \<times> world" where
  "chatItemMessagesChunk e columns templateRow nextRowID i end chunk w =
     (case chunkRows (\<lambda>j msgData. Inr (buildRowValues columns
               (chatItemMessageOverrides e nextRowID i j msgData) templateRow)) 0 chunk of
        Inl err \<Rightarrow> (Some err, w)
      | Inr rows \<Rightarrow>
          (case execInsert e ''chat_item_messages'' columns rows w of
             (Some err, w') \<Rightarrow> (Some (wrapErr ''failed to execute chunk'' err), w')
           | (None, w') \<Rightarrow> (None, w')))"

definition bulkInsertChatItemMessages ::
  "env \<Rightarrow> BulkInsertData \<Rightarrow> world \<Rightarrow> (error option \<times> world) option" where
  "bulkInsertChatItemMessages e data w =
     (case getTemplateRow e ''chat_item_messages'' ''rowid'' w of
        (Inl err, w1) \<Rightarrow> Some (Some (wrapErr ''failed to get template row'' err), w1)
      | (Inr templateRow, w1) \<Rightarrow>
          (case getTableColumns e ''chat_item_messages'' w1 of
             (Inl err, w2) \<Rightarrow> Some (Some err, w2)
           | (Inr columns, w2) \<Rightarrow>
               (case queryCoalesceMax e ''chat_item_messages'' ''rowid'' 1 w2 of
                  (Inl err, w3) \<Rightarrow> Some (Some (wrapErr ''failed to get next rowid'' err), w3)
                | (Inr nextRowID, w3) \<Rightarrow>
                    (case calculateChunkSize (int (length columns)) 900 of
                       Inl err \<Rightarrow> Some (Some err, w3)
                     | Inr chunkSize \<Rightarrow>
                         chunkLoop (chatItemMessagesChunk e columns templateRow nextRowID)
                           (bd_Messages data) chunkSize 0 w3))))"

subsection \<open>msg\_deliveries\<close>

definition msgDeliveryOverrides ::
  "env \<Rightarrow> int \<Rightarrow> int \<Rightarrow> int \<Rightarrow> MessageInsertData \<Rightarrow> (string \<times> val) list" where
  "msgDeliveryOverrides e maxAgentMsgID i j msgData =
     (let msg = mi_Message msgData;
          itemStatus = (if um_IsSent msg then ''snd_rcvd ok'' else ''rcv_read'')
      in [(''msg_delivery_id'', VInt (mi_MessageID msgData)),
          (''message_id'', VInt (mi_MessageID msgData)),
          (''connection_id'', VInt 1),
          (''agent_msg_id'', VInt (wrap64 (wrap64 (wrap64 (maxAgentMsgID + 1) + i) + j))),
          (''agent_msg_meta'', VNull),
          (''delivery_status'', VText itemStatus),
          (''chat_ts'', VText (timeFormat e sqlTime (um_Timestamp msg))),
          (''created_at'', VText (timeFormat e sqlTime (um_Timestamp msg))),
          (''updated_at'', VText (timeFormat e sqlTime (um_Timestamp msg)))])"

definition msgDeliveriesChunk ::
  "env \<Rightarrow> string list \<Rightarrow> (string \<times> val) list \<Rightarrow> int
     \<Rightarrow> int \<Rightarrow> int \<Rightarrow> MessageInsertData list \<Rightarrow> world \<Rightarrow> error option \<times> world" where
  "msgDeliveriesChunk e columns templateRow maxAgentMsgID i end chunk w =
     (case chunkRows (\<lambda>j msgData. Inr (buildRowValues columns
               (msgDeliveryOverrides e maxAgentMsgID i j msgData) templateRow)) 0 chunk of
        Inl err \<Rightarrow> (Some err, w)
      | Inr rows \<Rightarrow>
          (case execInsert e ''msg_deliveries'' columns rows w of
             (Some err, w') \<Rightarrow> (Some (wrapErr ''failed to execute chunk'' err), w')
           | (None, w') \<Rightarrow> (None, w')))"

definition bulkInsertMsgDeliveries ::
  "env \<Rightarrow> BulkInsertData \<Rightarrow> world \<Rightarrow> (error option \<times> world) option" where
  "bulkInsertMsgDeliveries e data w =
     (case getTemplateRow e ''msg_deliveries'' ''msg_delivery_id'' w of
        (Inl err, w1) \<Rightarrow> Some (Some (wrapErr ''failed to get template row'' err), w1)
      | (Inr templateRow, w1) \<Rightarrow>
          (case getTableColumns e ''msg_deliveries'' w1 of
             (Inl err, w2) \<Rightarrow> Some (Some err, w2)
           | (Inr columns, w2) \<Rightarrow>
               (case queryCoalesceMax e ''msg_deliveries'' ''agent_msg_id'' 0 w2 of
                  (Inl err, w3) \<Rightarrow> Some (Some (wrapErr ''failed to get max agent_msg_id'' err), w3)
                | (Inr maxAgentMsgID, w3) \<Rightarrow>
                    (case calculateChunkSize (int (length columns)) 900 of
                       Inl err \<Rightarrow> Some (Some err, w3)
                     | Inr chunkSize \<Rightarrow>
                         chunkLoop (msgDeliveriesChunk e columns templateRow maxAgentMsgID)
                           (bd_Messages data) chunkSize 0 w3))))"

subsection \<open>files, snd\_files, rcv\_files\<close>

text \<open>
  The filename truncation of \<^verbatim>\<open>insertFileAttachment\<close> and \<^verbatim>\<open>copyFileToSimplexDir\<close>:
  \<^verbatim>\<open>filename[:200-len(ext)]\<close> panics when the extension is longer than 200 bytes.
\<close>

definition truncateFilename :: "env \<Rightarrow> string \<Rightarrow> error + string" where
  "truncateFilename e filename =
     (if length filename > 200 then
        let ext = filepathExt e filename in
        if 200 < length ext then Inl (Panic ''slice bounds out of range'')
        else Inr (take (200 - length ext) filename @ ext)
      else Inr filename)"

definition copyFileToSimplexDir :: "env \<Rightarrow> string \<Rightarrow> string \<Rightarrow> string \<Rightarrow> error option" where
  "copyFileToSimplexDir e sourcePath filename simplexFilesDir =
     (if mkdirFails e simplexFilesDir
      then Some (Wrap ''failed to create SimpleX files directory'' (FileError simplexFilesDir))
      else
        (case truncateFilename e filename of
           Inl p \<Rightarrow> Some p
         | Inr filename' \<Rightarrow>
             if copyFails e sourcePath (filepathJoin e simplexFilesDir filename')
             then Some (Wrap ''failed to copy file'' (FileError sourcePath))
             else None))"

definition sndFileOverrides :: "int \<Rightarrow> int \<Rightarrow> string \<Rightarrow> string \<Rightarrow> (string \<times> val) list" where
  "sndFileOverrides fileID nextDeliveryID createdAt updatedAt =
     [(''file_id'', VInt fileID),
      (''connection_id'', VInt 1),
      (''file_status'', VText ''complete''),
      (''last_inline_msg_delivery_id'', VInt nextDeliveryID),
      (''created_at'', VText createdAt),
      (''updated_at'', VText updatedAt)]"

definition insertSndFile :: "env \<Rightarrow> int \<Rightarrow> world \<Rightarrow> error option \<times> world" where
  "insertSndFile e fileID w =
     (case getTemplateRow e ''snd_files'' ''file_id'' w of
        (Inl err, w1) \<Rightarrow> (Some err, w1)
      | (Inr templateRow, w1) \<Rightarrow>
          (case getTableColumns e ''snd_files'' w1 of
             (Inl err, w2) \<Rightarrow> (Some err, w2)
           | (Inr columns, w2) \<Rightarrow>
               (case queryCoalesceMax e ''snd_files'' ''last_inline_msg_delivery_id'' 1 w2 of
                  (Inl err, w3) \<Rightarrow> (Some (wrapErr ''failed to get next delivery ID'' err), w3)
                | (Inr nextDeliveryID, w3) \<Rightarrow>
                    (case timeNow e w3 of (t1, w4) \<Rightarrow>
                     case timeNow e w4 of (t2, w5) \<Rightarrow>
                       let overrideFields = sndFileOverrides fileID nextDeliveryID
                             (timeFormat e sqlTime t1) (timeFormat e sqlTime t2);
                           rowValues = buildRowValues columns overrideFields templateRow
                       in if columns = [] then (Some (Panic ''strings: negative Repeat count''), w5)
                          else execInsert e ''snd_files'' columns [rowValues] w5))))"

definition rcvFileOverrides :: "int \<Rightarrow> string \<Rightarrow> string \<Rightarrow> (string \<times> val) list" where
  "rcvFileOverrides fileID createdAt updatedAt =
     [(''file_id'', VInt fileID),
      (''file_status'', VText ''complete''),
      (''user_approved_relays'', VInt 0),
      (''created_at'', VText createdAt),
      (''updated_at'', VText updatedAt)]"

definition insertRcvFile :: "env \<Rightarrow> int \<Rightarrow> world \<Rightarrow> error option \<times> world" where
  "insertRcvFile e fileID w =
     (case getTemplateRow e ''rcv_files'' ''file_id'' w of
        (Inl err, w1) \<Rightarrow> (Some err, w1)
      | (Inr templateRow, w1) \<Rightarrow>
          (case getTableColumns e ''rcv_files'' w1 of
             (Inl err, w2) \<Rightarrow> (Some err, w2)
           | (Inr columns, w2) \<Rightarrow>
               (case timeNow e w2 of (t1, w3) \<Rightarrow>
                case timeNow e w3 of (t2, w4) \<Rightarrow>
                  let overrideFields = rcvFileOverrides fileID
                        (timeFormat e sqlTime t1) (timeFormat e sqlTime t2);
                      rowValues = buildRowValues columns overrideFields templateRow
                  in if columns = [] then (Some (Panic ''strings: negative Repeat count''), w4)
                     else execInsert e ''rcv_files'' columns [rowValues] w4)))"

definition fileStatusProtocol :: "string \<Rightarrow> bool \<Rightarrow> string \<times> string" where
  "fileStatusProtocol messageType isSent =
     (if messageType = ''video'' then (''snd_stored'', ''local'')
      else if messageType = ''image'' \<or> messageType = ''voice'' then
        (if isSent then ''snd_complete'' else ''rcv_complete'', ''xftp'')
      else (if isSent then ''snd_complete'' else ''rcv_complete'', ''smp''))"

definition fileOverrides ::
  "int \<Rightarrow> int \<Rightarrow> string \<Rightarrow> UniversalAttachment \<Rightarrow> int \<Rightarrow> string \<Rightarrow> bool
     \<Rightarrow> string \<Rightarrow> string \<Rightarrow> (string \<times> val) list" where
  "fileOverrides nextFileID contactID truncatedFilename attachment chatItemID messageType isSent
       createdAt updatedAt =
     (case fileStatusProtocol messageType isSent of (fileStatus, protocol) \<Rightarrow>
      [(''file_id'', VInt nextFileID),
       (''contact_id'', VInt contactID),
       (''file_name'', VText truncatedFilename),
       (''file_path'', VText truncatedFilename),
       (''file_size'', VInt (att_Size attachment)),
       (''chunk_size'', VInt 16384),
       (''user_id'', VInt 1),
       (''chat_item_id'', VInt chatItemID),
       (''ci_file_status'', VText fileStatus),
       (''protocol'', VText protocol),
       (''created_at'', VText createdAt),
       (''updated_at'', VText updatedAt),
       (''file_crypto_key'', VNull),
       (''file_crypto_nonce'', VNull)])"

definition insertFileAttachment ::
  "env \<Rightarrow> UniversalAttachment \<Rightarrow> int \<Rightarrow> bool \<Rightarrow> string \<Rightarrow> string \<Rightarrow> int \<Rightarrow> string \<Rightarrow> world
     \<Rightarrow> (error + int) \<times> world" where
  "insertFileAttachment e attachment chatItemID isSent jsonDir messageType contactID
       simplexFilesDir w =
     (let filePath = filepathJoin e jsonDir (att_URL attachment) in
      if statNotExist e filePath then (Inl (FileError ''file not found''), w)
      else
        case getTemplateRow e ''files'' ''file_id'' w of
          (Inl err, w1) \<Rightarrow> (Inl (wrapErr ''failed to get template file row'' err), w1)
        | (Inr templateRow, w1) \<Rightarrow>
        case queryCoalesceMax e ''files'' ''file_id'' 1 w1 of
          (Inl err, w2) \<Rightarrow> (Inl (wrapErr ''failed to get next file_id'' err), w2)
        | (Inr nextFileID, w2) \<Rightarrow>
        case getTableColumns e ''files'' w2 of
          (Inl err, w3) \<Rightarrow> (Inl err, w3)
        | (Inr columns, w3) \<Rightarrow>
        case truncateFilename e (att_Filename attachment) of
          Inl p \<Rightarrow> (Inl p, w3)
        | Inr truncatedFilename \<Rightarrow>
        case copyFileToSimplexDir e filePath (att_Filename attachment) simplexFilesDir of
          Some err \<Rightarrow> (Inl (wrapErr ''failed to copy file to SimpleX directory'' err), w3)
        | None \<Rightarrow>
        case timeNow e w3 of (t1, w4) \<Rightarrow>
        case timeNow e w4 of (t2, w5) \<Rightarrow>
          let overrideFields = fileOverrides nextFileID contactID truncatedFilename attachment
                chatItemID messageType isSent (timeFormat e sqlTime t1) (timeFormat e sqlTime t2);
              rowValues = buildRowValues columns overrideFields templateRow
          in
          if columns = [] then (Inl (Panic ''strings: negative Repeat count''), w5)
          else
            case execInsert e ''files'' columns [rowValues] w5 of
              (Some err, w6) \<Rightarrow> (Inl (wrapErr ''failed to insert file'' err), w6)
            | (None, w6) \<Rightarrow>
                if messageType \<noteq> ''video'' then
                  (case (if isSent then insertSndFile e nextFileID w6
                         else insertRcvFile e nextFileID w6) of
                     (Some err, w7) \<Rightarrow>
                       (Inl (wrapErr ''failed to insert file transfer record'' err), w7)
                   | (None, w7) \<Rightarrow> (Inr nextFileID, w7))
                else (Inr nextFileID, w6))"

subsection \<open>chat\_items\<close>

definition chatItemContent :: "env \<Rightarrow> string \<Rightarrow> UniversalMessage \<Rightarrow> json" where
  "chatItemContent e jsonDir msg =
     (case um_Attachments msg of
        [] \<Rightarrow> JObj [(''type'', JStr ''text''), (''text'', JStr (um_Content msg))]
      | attachment # _ \<Rightarrow>
          if um_MessageType msg = ''image'' then
            (case encodeImageToBase64 e (filepathJoin e jsonDir (att_URL attachment)) of
               Inl _ \<Rightarrow>
                 JObj [(''type'', JStr ''text''),
                       (''text'', JStr (imageFallbackText attachment msg))]
             | Inr imageBase64 \<Rightarrow>
                 JObj [(''type'', JStr ''image''), (''text'', JStr (um_Content msg)),
                       (''image'', JStr imageBase64)])
          else if um_MessageType msg = ''video'' then
            (case generateVideoThumbnail e (filepathJoin e jsonDir (att_URL attachment)) of
               Inl _ \<Rightarrow> JObj [(''type'', JStr ''file''), (''text'', JStr (um_Content msg))]
             | Inr (thumbnailBase64, duration) \<Rightarrow>
                 JObj [(''type'', JStr ''video''), (''text'', JStr (um_Content msg)),
                       (''image'', JStr thumbnailBase64), (''duration'', JNum duration)])
          else if um_MessageType msg = ''voice'' then
            JObj [(''type'', JStr ''file''), (''text'', JStr (um_Content msg))]
          else JObj [(''type'', JStr ''file''), (''text'', JStr (um_Content msg))])"

definition itemContentTag :: "UniversalMessage \<Rightarrow> string" where
  "itemContentTag msg = (if um_IsSent msg then ''sndMsgContent'' else ''rcvMsgContent'')"

definition itemContent :: "env \<Rightarrow> string \<Rightarrow> UniversalMessage \<Rightarrow> json" where
  "itemContent e jsonDir msg =
     JObj [(itemContentTag msg, JObj [(''msgContent'', chatItemContent e jsonDir msg)])]"

definition quotedContent :: "QuotedMessage \<Rightarrow> json" where
  "quotedContent q = JObj [(''type'', JStr ''text''), (''text'', JStr (q_Content q))]"

text \<open>
  The override map of one \<^verbatim>\<open>chat_items\<close> row; \<open>quoted\<close> is the quoted message with its
  serialized content, when the message has one.
\<close>

definition chatItemOverrides ::
  "env \<Rightarrow> int \<Rightarrow> MessageInsertData \<Rightarrow> string \<Rightarrow> (QuotedMessage \<times> string) option
     \<Rightarrow> (string \<times> val) list" where
  "chatItemOverrides e contactID msgData itemContentBytes quoted =
     (let msg = mi_Message msgData in
      [(''chat_item_id'', VInt (mi_ChatItemID msgData)),
       (''user_id'', VInt 1),
       (''contact_id'', VInt contactID),
       (''created_by_msg_id'', VInt (mi_MessageID msgData)),
       (''shared_msg_id'', VBlob (mi_SharedMsgID msgData)),
       (''item_content'', VText itemContentBytes),
       (''item_text'', VText (um_Content msg)),
       (''item_content_tag'', VText (itemContentTag msg)),
       (''item_sent'', VInt (if um_IsSent msg then 1 else 0)),
       (''item_status'', VText (if um_IsSent msg then ''snd_rcvd ok complete'' else ''rcv_read'')),
       (''item_deleted'', VInt 0),
       (''item_edited'', VInt 0),
       (''include_in_history'', VInt 1),
       (''user_mention'', VInt 0),
       (''show_group_as_sender'', VInt 0),
       (''item_ts'', VText (timeFormat e sqlTime (um_Timestamp msg))),
       (''created_at'', VText (timeFormat e sqlTime (um_Timestamp msg))),
       (''updated_at'', VText (timeFormat e sqlTime (um_Timestamp msg)))]
      @ (case quoted of
           Some (q, quotedContentBytes) \<Rightarrow>
             [(''quoted_shared_msg_id'', VBlob (q_SharedMsgID q)),
              (''quoted_sent_at'', VText (timeFormat e sqlTime (q_SentAt q))),
              (''quoted_content'', VText quotedContentBytes),
              (''quoted_sent'', VInt (if q_IsSent q then 1 else 0))]
         | None \<Rightarrow>
             [(''quoted_shared_msg_id'', VNull),
              (''quoted_sent_at'', VNull),
              (''quoted_content'', VNull),
              (''quoted_sent'', VNull)]))"

definition chatItemRow ::
  "env \<Rightarrow> string \<Rightarrow> int \<Rightarrow> string list \<Rightarrow> (string \<times> val) list \<Rightarrow> MessageInsertData
     \<Rightarrow> error + val list" where
  "chatItemRow e jsonDir contactID columns templateRow msgData =
     (let msg = mi_Message msgData in
      case jsonMarshal e (itemContent e jsonDir msg) of
        None \<Rightarrow> Inl (Wrap ''failed to marshal item_content'' MarshalError)
      | Some itemContentBytes \<Rightarrow>
          (case um_QuotedMessage msg of
             Some q \<Rightarrow>
               (case jsonMarshal e (quotedContent q) of
                  None \<Rightarrow> Inl (Wrap ''failed to marshal quoted_content'' MarshalError)
                | Some quotedContentBytes \<Rightarrow>
                    Inr (buildRowValues columns
                      (chatItemOverrides e contactID msgData itemContentBytes
                         (Some (q, quotedContentBytes))) templateRow))
           | None \<Rightarrow>
               Inr (buildRowValues columns
                 (chatItemOverrides e contactID msgData itemContentBytes None) templateRow)))"

text \<open>
  The rows of one \<^verbatim>\<open>chat_items\<close> chunk. Each message with an attachment first has
  its file rows inserted; an error of \<^verbatim>\<open>insertFileAttachment\<close> is logged and the loop
  goes on, a panic unwinds.
\<close>

fun chatItemsChunkRows ::
  "env \<Rightarrow> string \<Rightarrow> int \<Rightarrow> string \<Rightarrow> string list \<Rightarrow> (string \<times> val) list
     \<Rightarrow> MessageInsertData list \<Rightarrow> world \<Rightarrow> (error + val list list) \<times> world" where
  "chatItemsChunkRows e jsonDir contactID simplexFilesDir columns templateRow [] w = (Inr [], w)"
| "chatItemsChunkRows e jsonDir contactID simplexFilesDir columns templateRow (msgData # rest) w =
     (let msg = mi_Message msgData;
          (panic, w1) =
            (case um_Attachments msg of
               [] \<Rightarrow> (None, w)
             | attachment # _ \<Rightarrow>
                 (case insertFileAttachment e attachment (mi_ChatItemID msgData) (um_IsSent msg)
                         jsonDir (um_MessageType msg) contactID simplexFilesDir w of
                    (Inl err, w') \<Rightarrow> (if isPanic err then Some err else None, w')
                  | (Inr _, w') \<Rightarrow> (None, w')))
      in case panic of
           Some p \<Rightarrow> (Inl p, w1)
         | None \<Rightarrow>
             (case chatItemRow e jsonDir contactID columns templateRow msgData of
                Inl err \<Rightarrow> (Inl err, w1)
              | Inr r \<Rightarrow>
                  (case chatItemsChunkRows e jsonDir contactID simplexFilesDir columns
                          templateRow rest w1 of
                     (Inl err, w2) \<Rightarrow> (Inl err, w2)
                   | (Inr rs, w2) \<Rightarrow> (Inr (r # rs), w2))))"

definition chatItemsChunk ::
  "env \<Rightarrow> string \<Rightarrow> int \<Rightarrow> string \<Rightarrow> string list \<Rightarrow> (string \<times> val) list
     \<Rightarrow> int \<Rightarrow> int \<Rightarrow> MessageInsertData list \<Rightarrow> world \<Rightarrow> error option \<times> world" where
  "chatItemsChunk e jsonDir contactID simplexFilesDir columns templateRow i end chunk w =
     (case chatItemsChunkRows e jsonDir contactID simplexFilesDir columns templateRow chunk w of
        (Inl err, w1) \<Rightarrow> (Some err, w1)
      | (Inr rows, w1) \<Rightarrow>
          (case execInsert e ''chat_items'' columns rows w1 of
             (Some err, w') \<Rightarrow> (Some (wrapErr ''failed to execute chunk'' err), w')
           | (None, w') \<Rightarrow> (None, w')))"

definition bulkInsertChatItems ::
  "env \<Rightarrow> BulkInsertData \<Rightarrow> string \<Rightarrow> int \<Rightarrow> string \<Rightarrow> world
     \<Rightarrow> (error option \<times> world) option" where
  "bulkInsertChatItems e data jsonDir contactID simplexFilesDir w =
     (case getTemplateRow e ''chat_items'' ''chat_item_id'' w of
        (Inl err, w1) \<Rightarrow> Some (Some (wrapErr ''failed to get template row'' err), w1)
      | (Inr templateRow, w1) \<Rightarrow>
          (case getTableColumns e ''chat_items'' w1 of
             (Inl err, w2) \<Rightarrow> Some (Some err, w2)
           | (Inr columns, w2) \<Rightarrow>
               (case calculateChunkSize (int (length columns)) 900 of
                  Inl err \<Rightarrow> Some (Some err, w2)
                | Inr chunkSize \<Rightarrow>
                    chunkLoop
                      (chatItemsChunk e jsonDir contactID simplexFilesDir columns templateRow)
                      (bd_Messages data) chunkSize 0 w2)))"

subsection \<open>chat\_item\_reactions\<close>

definition normalizeEmojiForSimpleX :: "env \<Rightarrow> string \<Rightarrow> string" where
  "normalizeEmojiForSimpleX e emoji =
     concat (map (runeString e) (filter (\<lambda>r. r \<noteq> 0xFE0E \<and> r \<noteq> 0xFE0F) (utf8Runes e emoji)))"

definition reactionColumns :: "string list" where
  "reactionColumns =
     [''chat_item_reaction_id'', ''shared_msg_id'', ''contact_id'', ''created_by_msg_id'',
      ''reaction'', ''reaction_sent'', ''reaction_ts'', ''created_at'', ''updated_at'']"

definition reactionRow :: "env \<Rightarrow> int \<Rightarrow> MessageInsertData \<Rightarrow> UniversalReaction \<Rightarrow> int \<Rightarrow> val list" where
  "reactionRow e contactID msgData reaction reactionIDCounter =
     (let msg = mi_Message msgData;
          normalizedEmoji = normalizeEmojiForSimpleX e (rea_Emoji reaction);
          reactionJSON = [CHR ''{'', CHR 0x22] @ ''type'' @ [CHR 0x22, CHR '':'', CHR 0x22]
            @ ''emoji'' @ [CHR 0x22, CHR '','', CHR 0x22] @ ''emoji'' @ [CHR 0x22, CHR '':'', CHR 0x22]
            @ normalizedEmoji @ [CHR 0x22, CHR ''}''];
          reactionSent = (if um_IsSent msg then 0 else 1 :: int)
      in [VInt reactionIDCounter, VBlob (mi_SharedMsgID msgData), VInt contactID, VNull,
          VText reactionJSON, VInt reactionSent,
          VText (timeFormat e ''2006-01-02 15:04:05.000000000'' (um_Timestamp msg)),
          VText (timeFormat e sqlTime (um_Timestamp msg)),
          VText (timeFormat e sqlTime (um_Timestamp msg))])"

fun insertReactions ::
  "env \<Rightarrow> int \<Rightarrow> MessageInsertData \<Rightarrow> UniversalReaction list \<Rightarrow> int \<Rightarrow> world
     \<Rightarrow> (error option \<times> int) \<times> world" where
  "insertReactions e contactID msgData [] reactionIDCounter w = ((None, reactionIDCounter), w)"
| "insertReactions e contactID msgData (reaction # rest) reactionIDCounter w =
     (case execInsert e ''chat_item_reactions'' reactionColumns
             [reactionRow e contactID msgData reaction reactionIDCounter] w of
        (Some err, w') \<Rightarrow> ((Some (wrapErr ''failed to insert reaction'' err), reactionIDCounter), w')
      | (None, w') \<Rightarrow>
          insertReactions e contactID msgData rest (wrap64 (reactionIDCounter + 1)) w')"

fun reactionsOfMessages ::
  "env \<Rightarrow> int \<Rightarrow> MessageInsertData list \<Rightarrow> int \<Rightarrow> world \<Rightarrow> error option \<times> world" where
  "reactionsOfMessages e contactID [] reactionIDCounter w = (None, w)"
| "reactionsOfMessages e contactID (msgData # rest) reactionIDCounter w =
     (case insertReactions e contactID msgData (um_Reactions (mi_Message msgData))
             reactionIDCounter w of
        ((Some err, _), w') \<Rightarrow> (Some err, w')
      | ((None, reactionIDCounter'), w') \<Rightarrow>
          reactionsOfMessages e contactID rest reactionIDCounter' w')"

definition bulkInsertReactions :: "env \<Rightarrow> BulkInsertData \<Rightarrow> int \<Rightarrow> world \<Rightarrow> error option \<times> world" where
  "bulkInsertReactions e data contactID w =
     (case queryCoalesceMax e ''chat_item_reactions'' ''chat_item_reaction_id'' 1 w of
        (Inl err, w1) \<Rightarrow> (Some (wrapErr ''failed to get next reaction ID'' err), w1)
      | (Inr nextReactionID, w1) \<Rightarrow>
          reactionsOfMessages e contactID (bd_Messages data) nextReactionID w1)"

section \<open>One batch in one transaction\<close>

definition prepareBulkData :: "UniversalMessage list \<Rightarrow> int \<Rightarrow> int \<Rightarrow> BulkInsertData" where
  "prepareBulkData messages startMessageID maxChatItemID =
     \<lparr> bd_Messages =
         map (\<lambda>(i, msg).
           \<lparr> mi_MessageID = wrap64 (startMessageID + int i),
             mi_ChatItemID = wrap64 (wrap64 (maxChatItemID + 1) + int i),
             mi_SharedMsgID = um_ID msg,
             mi_Message = msg \<rparr>) (enumerate 0 messages),
       bd_StartMessageID = startMessageID,
       bd_StartChatItemID = wrap64 (maxChatItemID + 1),
       bd_StartDeliveryRowID = 0,
       bd_DiscordToSharedMsgID = fold (\<lambda>msg m. m(um_ID msg \<mapsto> um_ID msg)) messages Map.empty,
       bd_DiscordMessages = Map.empty \<rparr>"

text \<open>
  The body of \<^verbatim>\<open>bulkInsertUniversalMessages\<close> between \<^verbatim>\<open>db.Begin\<close> and
  \<^verbatim>\<open>tx.Commit\<close>: every \<^verbatim>\<open>return fmt.Errorf(...)\<close> is a \<open>Some\<close> result.
\<close>

definition batchSteps ::
  "env \<Rightarrow> UniversalMessage list \<Rightarrow> int \<Rightarrow> string \<Rightarrow> int \<Rightarrow> string \<Rightarrow> world
     \<Rightarrow> (error option \<times> world) option" where
  "batchSteps e messages startMessageID jsonDir contactID simplexFilesDir w =
     (case queryCoalesceMax e ''chat_items'' ''chat_item_id'' 0 w of
        (Inl err, w1) \<Rightarrow> Some (Some (wrapErr ''failed to get max chat_item_id'' err), w1)
      | (Inr maxChatItemID, w1) \<Rightarrow>
     let bulkData = prepareBulkData messages startMessageID maxChatItemID in
     case bulkInsertMessages e bulkData jsonDir contactID w1 of
       None \<Rightarrow> None
     | Some (Some err, w2) \<Rightarrow> Some (Some (wrapErr ''failed to bulk insert messages'' err), w2)
     | Some (None, w2) \<Rightarrow>
     case bulkInsertChatItems e bulkData jsonDir contactID simplexFilesDir w2 of
       None \<Rightarrow> None
     | Some (Some err, w3) \<Rightarrow> Some (Some (wrapErr ''failed to bulk insert chat items'' err), w3)
     | Some (None, w3) \<Rightarrow>
     case bulkInsertChatItemMessages e bulkData w3 of
       None \<Rightarrow> None
     | Some (Some err, w4) \<Rightarrow>
         Some (Some (wrapErr ''failed to bulk insert chat item messages'' err), w4)
     | Some (None, w4) \<Rightarrow>
     case bulkInsertMsgDeliveries e bulkData w4 of
       None \<Rightarrow> None
     | Some (Some err, w5) \<Rightarrow> Some (Some (wrapErr ''failed to bulk insert msg deliveries'' err), w5)
     | Some (None, w5) \<Rightarrow>
     case bulkInsertReactions e bulkData contactID w5 of
       (Some err, w6) \<Rightarrow> Some (Some (wrapErr ''failed to bulk insert reactions'' err), w6)
     | (None, w6) \<Rightarrow> Some (None, w6))"

text \<open>
  \<^verbatim>\<open>defer tx.Rollback()\<close>: when the function leaves with the transaction still open,
  the connection sees the database as it was at \<^verbatim>\<open>db.Begin\<close> again.
\<close>

definition rollback :: "database \<Rightarrow> world \<Rightarrow> world" where
  "rollback d w = w\<lparr>db := d, trace := trace w @ [Rollback]\<rparr>"

text \<open>
  \<^verbatim>\<open>bulkInsertUniversalMessages\<close>. A commit the engine refuses publishes nothing, and
  the transaction is then closed, so the deferred rollback sends no statement.
\<close>

definition bulkInsertUniversalMessages ::
  "env \<Rightarrow> UniversalMessage list \<Rightarrow> int \<Rightarrow> string \<Rightarrow> int \<Rightarrow> string \<Rightarrow> world
     \<Rightarrow> (error option \<times> world) option" where
  "bulkInsertUniversalMessages e messages startMessageID jsonDir contactID simplexFilesDir w =
     (case send e Begin w of
        (True, w0) \<Rightarrow>
          Some (Some (Wrap ''failed to begin transaction'' (SqlError ''statement refused'')), w0)
      | (False, w0) \<Rightarrow>
          (case batchSteps e messages startMessageID jsonDir contactID simplexFilesDir w0 of
             None \<Rightarrow> None
           | Some (Some err, w1) \<Rightarrow> Some (Some err, rollback (db w) w1)
           | Some (None, w1) \<Rightarrow>
               (case send e Commit w1 of
                  (True, w2) \<Rightarrow>
                    Some (Some (Wrap ''failed to commit transaction''
                                  (SqlError ''statement refused'')), w2\<lparr>db := db w\<rparr>)
                | (False, w2) \<Rightarrow> Some (None, w2))))"

section \<open>From the export to universal messages\<close>

definition jget :: "(string \<times> json) list \<Rightarrow> string \<Rightarrow> json" where
  "jget m k = (case map_of m k of Some v \<Rightarrow> v | None \<Rightarrow> JNull)"

text \<open>\<^verbatim>\<open>fmt.Sprintf("%v", x)\<close>: a string prints as itself, \<^verbatim>\<open>nil\<close> as \<^verbatim>\<open><nil>\<close>.\<close>

definition fmtV :: "env \<Rightarrow> json \<Rightarrow> string" where
  "fmtV e j = (case j of JStr s \<Rightarrow> s | JNull \<Rightarrow> ''<nil>'' | _ \<Rightarrow> sprintV e j)"

definition parseOrZero :: "env \<Rightarrow> string \<Rightarrow> gotime" where
  "parseOrZero e s = (case timeParse e s of Some t \<Rightarrow> t | None \<Rightarrow> 0)"

definition messageTypeOfExt :: "string \<Rightarrow> string" where
  "messageTypeOfExt ext =
     (if ext \<in> set [''.jpg'', ''.jpeg'', ''.png'', ''.gif'', ''.webp''] then ''image''
      else if ext \<in> set [''.mp4'', ''.webm'', ''.mov'', ''.avi''] then ''video''
      else if ext \<in> set [''.mp3'', ''.wav'', ''.m4a'', ''.ogg''] then ''voice''
      else ''file'')"

text \<open>\<^verbatim>\<open>int64(x)\<close> and \<^verbatim>\<open>int(x)\<close> of a \<^verbatim>\<open>float64\<close> with the integral value \<open>n\<close>.\<close>

definition floatToInt :: "env \<Rightarrow> int \<Rightarrow> int" where
  "floatToInt e n = (if int64 n then n else floatOverflow e n)"

text \<open>
  The attachment loop: an entry that is no JSON object is skipped, a
  \<^verbatim>\<open>fileSizeBytes\<close> that is no number panics in the type assertion.
\<close>

fun convertAttachments ::
  "env \<Rightarrow> json list \<Rightarrow> UniversalAttachment list \<Rightarrow> string
     \<Rightarrow> error + UniversalAttachment list \<times> string" where
  "convertAttachments e [] attachments messageType = Inr (attachments, messageType)"
| "convertAttachments e (JObj attMap # rest) attachments messageType =
     (let filename = fmtV e (jget attMap ''fileName'');
          ext = toLower e (filepathExt e filename)
      in case jget attMap ''fileSizeBytes'' of
           JNum n \<Rightarrow>
             convertAttachments e rest
               (attachments @ [\<lparr> att_ID = fmtV e (jget attMap ''id''), att_Filename = filename,
                                 att_URL = fmtV e (jget attMap ''url''), att_MimeType = [],
                                 att_Size = floatToInt e n \<rparr>])
               (messageTypeOfExt ext)
         | _ \<Rightarrow> Inl (Panic ''interface conversion''))"
| "convertAttachments e (att # rest) attachments messageType =
     convertAttachments e rest attachments messageType"

fun convertUserIDs :: "env \<Rightarrow> json list \<Rightarrow> string list" where
  "convertUserIDs e [] = []"
| "convertUserIDs e (JObj userMap # rest) = fmtV e (jget userMap ''id'') # convertUserIDs e rest"
| "convertUserIDs e (user # rest) = convertUserIDs e rest"

fun convertReactions :: "env \<Rightarrow> json list \<Rightarrow> error + UniversalReaction list" where
  "convertReactions e [] = Inr []"
| "convertReactions e (JObj reactMap # rest) =
     (case jget reactMap ''emoji'' of
        JObj emojiMap \<Rightarrow>
          (case jget reactMap ''count'' of
             JNum count \<Rightarrow>
               (case convertReactions e rest of
                  Inl p \<Rightarrow> Inl p
                | Inr rs \<Rightarrow>
                    Inr (\<lparr> rea_Emoji = fmtV e (jget emojiMap ''name''),
                           rea_Count = floatToInt e count,
                           rea_UserIDs = (case jget reactMap ''users'' of
                                            JArr users \<Rightarrow> convertUserIDs e users
                                          | _ \<Rightarrow> []) \<rparr> # rs))
           | _ \<Rightarrow> Inl (Panic ''interface conversion''))
      | _ \<Rightarrow> convertReactions e rest)"
| "convertReactions e (react # rest) = convertReactions e rest"

text \<open>
  The reply block of \<^verbatim>\<open>ConvertDiscordMessage\<close>: the pair \<^verbatim>\<open>(replyToID, quotedMessage)\<close>.
\<close>

definition resolveReply ::
  "env \<Rightarrow> string \<Rightarrow> (string \<rightharpoonup> string) \<Rightarrow> (string \<rightharpoonup> DiscordMessage)
     \<Rightarrow> DiscordReference option \<Rightarrow> string option \<times> QuotedMessage option" where
  "resolveReply e myUsername discordToSharedMsgID discordMessages reference =
     (case reference of
        None \<Rightarrow> (None, None)
      | Some r \<Rightarrow>
          let referencedDiscordID = ref_MessageID r in
          (case discordToSharedMsgID referencedDiscordID of
             Some sharedMsgID \<Rightarrow>
               (Some sharedMsgID,
                case discordMessages referencedDiscordID of
                  Some quotedDiscordMsg \<Rightarrow>
                    Some \<lparr> q_SharedMsgID = sharedMsgID,
                           q_SentAt = parseOrZero e (d_Timestamp quotedDiscordMsg),
                           q_Content = d_Content quotedDiscordMsg,
                           q_IsSent = (da_Name (d_Author quotedDiscordMsg) = myUsername) \<rparr>
                | None \<Rightarrow> None)
           | None \<Rightarrow> (Some referencedDiscordID, None)))"

definition ConvertDiscordMessage ::
  "env \<Rightarrow> DiscordMessage \<Rightarrow> string \<Rightarrow> (string \<rightharpoonup> string) \<Rightarrow> (string \<rightharpoonup> DiscordMessage)
     \<Rightarrow> string \<Rightarrow> error + UniversalMessage" where
  "ConvertDiscordMessage e discordMsg myUsername discordToSharedMsgID discordMessages jsonDir =
     (let timestamp = parseOrZero e (d_Timestamp discordMsg);
          editedAt = (case d_TimestampEdited discordMsg of
                        None \<Rightarrow> None
                      | Some s \<Rightarrow> timeParse e s)
      in
      case convertAttachments e (d_Attachments discordMsg) [] ''text'' of
        Inl p \<Rightarrow> Inl p
      | Inr (attachments, messageType0) \<Rightarrow>
      let messageType = (if d_Attachments discordMsg \<noteq> [] \<and> messageType0 = ''text''
                            \<and> attachments \<noteq> [] then ''file'' else messageType0);
          mentions = map (\<lambda>mention.
                       \<lparr> men_UserID = dm_ID mention, men_Username = dm_Name mention,
                         men_Start = 0, men_Length = int (length (dm_Name mention)) \<rparr>)
                     (d_Mentions discordMsg)
      in
      case convertReactions e (d_Reactions discordMsg) of
        Inl p \<Rightarrow> Inl p
      | Inr reactions \<Rightarrow>
      case resolveReply e myUsername discordToSharedMsgID discordMessages
             (d_Reference discordMsg) of
        (replyToID, quotedMessage) \<Rightarrow>
      let displayName = (if da_Nickname (d_Author discordMsg) = []
                         then da_Name (d_Author discordMsg)
                         else da_Nickname (d_Author discordMsg));
          isSent = (da_Name (d_Author discordMsg) = myUsername)
      in Inr \<lparr> um_ID = d_ID discordMsg,
               um_Content = d_Content discordMsg,
               um_Timestamp = timestamp,
               um_EditedAt = editedAt,
               um_Author = \<lparr> au_ID = da_ID (d_Author discordMsg),
                              au_Username = da_Name (d_Author discordMsg),
                              au_DisplayName = displayName,
                              au_AvatarURL = Some (da_AvatarURL (d_Author discordMsg)),
                              au_IsBot = da_IsBot (d_Author discordMsg) \<rparr>,
               um_MessageType = messageType,
               um_Platform = ''discord'',
               um_Attachments = attachments,
               um_Mentions = mentions,
               um_Reactions = reactions,
               um_ReplyToID = replyToID,
               um_QuotedMessage = quotedMessage,
               um_IsPinned = d_IsPinned discordMsg,
               um_IsSent = isSent \<rparr>)"

section \<open>The import run\<close>

text \<open>The first pass of \<^verbatim>\<open>main\<close>: both maps over the entire export.\<close>

definition buildMappings ::
  "DiscordMessage list \<Rightarrow> (string \<rightharpoonup> string) \<times> (string \<rightharpoonup> DiscordMessage)" where
  "buildMappings messages =
     fold (\<lambda>discordMsg (discordToSharedMsgID, discordMessages).
             (discordToSharedMsgID(d_ID discordMsg \<mapsto> d_ID discordMsg),
              discordMessages(d_ID discordMsg \<mapsto> discordMsg)))
       messages (Map.empty, Map.empty)"

text \<open>The second pass: every message converted against the finished maps.\<close>

fun convertAll ::
  "env \<Rightarrow> string \<Rightarrow> (string \<rightharpoonup> string) \<Rightarrow> (string \<rightharpoonup> DiscordMessage) \<Rightarrow> string
     \<Rightarrow> DiscordMessage list \<Rightarrow> error + UniversalMessage list" where
  "convertAll e myUsername discordToSharedMsgID discordMessages jsonDir [] = Inr []"
| "convertAll e myUsername discordToSharedMsgID discordMessages jsonDir (discordMsg # rest) =
     (case ConvertDiscordMessage e discordMsg myUsername discordToSharedMsgID discordMessages
             jsonDir of
        Inl p \<Rightarrow> Inl p
      | Inr universalMsg \<Rightarrow>
          (case convertAll e myUsername discordToSharedMsgID discordMessages jsonDir rest of
             Inl p \<Rightarrow> Inl p
           | Inr universalMessages \<Rightarrow> Inr (universalMsg # universalMessages)))"

definition batchSize :: int where
  "batchSize = 500"

text \<open>The batch loop of \<^verbatim>\<open>main\<close>; \<^verbatim>\<open>log.Fatalf\<close> ends the run with the error.\<close>

partial_function (option) batchLoop ::
  "env \<Rightarrow> UniversalMessage list \<Rightarrow> int \<Rightarrow> string \<Rightarrow> int \<Rightarrow> string \<Rightarrow> int \<Rightarrow> world
     \<Rightarrow> (error option \<times> world) option" where
  "batchLoop e universalMessages startMessageID jsonDir contactID simplexFilesDir i w =
     (if i < int (length universalMessages) then
        let end = (if i + batchSize > int (length universalMessages)
                   then int (length universalMessages) else i + batchSize);
            batch = take (nat (end - i)) (drop (nat i) universalMessages);
            batchStartID = wrap64 (startMessageID + i)
        in case bulkInsertUniversalMessages e batch batchStartID jsonDir contactID
                  simplexFilesDir w of
             None \<Rightarrow> None
           | Some (Some err, w') \<Rightarrow> Some (Some (wrapErr ''Failed to insert batch'' err), w')
           | Some (None, w') \<Rightarrow>
               batchLoop e universalMessages startMessageID jsonDir contactID simplexFilesDir
                 (i + batchSize) w'
      else Some (None, w))"

declare batchLoop.simps [code]

text \<open>
  \<^verbatim>\<open>main\<close> from the starting message id on: the contact, the paths and the decoded
  export are its inputs.
\<close>

definition importExport ::
  "env \<Rightarrow> DiscordMessage list \<Rightarrow> string \<Rightarrow> string \<Rightarrow> int \<Rightarrow> string \<Rightarrow> world
     \<Rightarrow> (error option \<times> world) option" where
  "importExport e exportMessages myUsername jsonDir contactID simplexFilesDir w =
     (case queryCoalesceMax e ''messages'' ''message_id'' 1 w of
        (Inl err, w1) \<Rightarrow> Some (Some (wrapErr ''Failed to get starting message ID'' err), w1)
      | (Inr startMessageID, w1) \<Rightarrow>
          (case buildMappings exportMessages of
             (discordToSharedMsgID, discordMessages) \<Rightarrow>
               (case convertAll e myUsername discordToSharedMsgID discordMessages jsonDir
                       exportMessages of
                  Inl p \<Rightarrow> Some (Some p, w1)
                | Inr universalMessages \<Rightarrow>
                    batchLoop e universalMessages startMessageID jsonDir contactID
                      simplexFilesDir 0 w1)))"

section \<open>Observing the statement trace\<close>

text \<open>
  \<open>allowed K A\<close> holds for the reads every insert function makes (template and
  column look-ups), for a key query \<^verbatim>\<open>SELECT COALESCE(MAX(c), 0) + k FROM t\<close> with
  \<open>(t, c) \<in> K\<close> and for an insert into a table of \<open>A\<close>; never for a transaction
  statement. \<open>extends K A w w'\<close>: from \<open>w\<close> to \<open>w'\<close> only such statements were sent.
\<close>

definition allowed :: "(string \<times> string) set \<Rightarrow> string set \<Rightarrow> stmt \<Rightarrow> bool" where
  "allowed K A st =
     (case st of
        SelectMax t c \<Rightarrow> True
      | TableInfo t \<Rightarrow> True
      | SelectRow t cs c k \<Rightarrow> True
      | SelectCoalesceMax t c k \<Rightarrow> (t, c) \<in> K
      | InsertRows t cs rows \<Rightarrow> t \<in> A
      | _ \<Rightarrow> False)"

definition extends :: "(string \<times> string) set \<Rightarrow> string set \<Rightarrow> world \<Rightarrow> world \<Rightarrow> bool" where
  "extends K A w w' = (\<exists>tr. trace w' = trace w @ tr \<and> list_all (allowed K A) tr)"

text \<open>The statements sent from \<open>w\<close> to \<open>w'\<close>, and the tables of the inserts among them.\<close>

definition added :: "world \<Rightarrow> world \<Rightarrow> stmt list" where
  "added w w' = drop (length (trace w)) (trace w')"

fun insertedTables :: "stmt list \<Rightarrow> string list" where
  "insertedTables [] = []"
| "insertedTables (InsertRows t cs rows # sts) = t # insertedTables sts"
| "insertedTables (st # sts) = insertedTables sts"

text \<open>The key queries among the statements: table and column, in order.\<close>

fun keyQueries :: "stmt list \<Rightarrow> (string \<times> string) list" where
  "keyQueries [] = []"
| "keyQueries (SelectCoalesceMax t c k # sts) = (t, c) # keyQueries sts"
| "keyQueries (st # sts) = keyQueries sts"

text \<open>The key queries and the tables written while one attachment is stored.\<close>

definition Kfiles :: "(string \<times> string) set" where
  "Kfiles = {(''files'', ''file_id''), (''snd_files'', ''last_inline_msg_delivery_id'')}"

definition Afiles :: "string set" where
  "Afiles = {''files'', ''snd_files'', ''rcv_files''}"

text \<open>The bounds and the slice of the chunk that starts at index \<open>i\<close>.\<close>

definition chunkEnd :: "'a list \<Rightarrow> int \<Rightarrow> int \<Rightarrow> int" where
  "chunkEnd xs cs i = (if i + cs > int (length xs) then int (length xs) else i + cs)"

definition chunkAt :: "'a list \<Rightarrow> int \<Rightarrow> int \<Rightarrow> 'a list" where
  "chunkAt xs cs i = take (nat (chunkEnd xs cs i - i)) (drop (nat i) xs)"

text \<open>The values a table holds in one column, in row order.\<close>

definition columnOf :: "database \<Rightarrow> string \<Rightarrow> string \<Rightarrow> val list" where
  "columnOf d t c = (case d t of None \<Rightarrow> [] | Some tb \<Rightarrow> map (fieldOf tb c) (rws tb))"

text \<open>Reading a path of keys in a JSON object.\<close>

fun jpath :: "json \<Rightarrow> string list \<Rightarrow> json" where
  "jpath j [] = j"
| "jpath (JObj m) (k # ks) = jpath (jget m k) ks"
| "jpath j (k # ks) = JNull"

text \<open>
  From \<open>w\<close> to \<open>w'\<close> the last insert, if there is one, is into \<^verbatim>\<open>chat_items\<close>.
\<close>

definition endsWithChatItems :: "world \<Rightarrow> world \<Rightarrow> bool" where
  "endsWithChatItems w w' =
     (\<exists>tr. trace w' = trace w @ tr \<and>
        (insertedTables tr = [] \<or> last (insertedTables tr) = ''chat_items''))"

text \<open>The keys that are allocated once for a whole batch.\<close>

definition BatchKeys :: "(string \<times> string) set" where
  "BatchKeys = {(''chat_items'', ''chat_item_id''), (''chat_item_messages'', ''rowid''),
                (''msg_deliveries'', ''agent_msg_id''),
                (''chat_item_reactions'', ''chat_item_reaction_id'')}"

text \<open>
  The statements of one batch: a refused \<^verbatim>\<open>Begin\<close> alone, or \<^verbatim>\<open>Begin\<close>, the
  chat-item key query, then the statements of the five steps in their order, each
  step with at most one key query of its own, then the closing statement.
\<close>

definition batchStatements :: "stmt list \<Rightarrow> bool" where
  "batchStatements tr =
     (tr = [Begin] \<or>
      (\<exists>t1 t2 t3 t4 t5 closing.
         tr = [Begin, SelectCoalesceMax ''chat_items'' ''chat_item_id'' 0]
                @ t1 @ t2 @ t3 @ t4 @ t5 @ [closing]
       \<and> (closing = Commit \<or> closing = Rollback)
       \<and> list_all (allowed {} {''messages''}) t1
       \<and> list_all (allowed Kfiles (insert ''chat_items'' Afiles)) t2
       \<and> list_all (allowed {(''chat_item_messages'', ''rowid'')} {''chat_item_messages''}) t3
       \<and> length (keyQueries t3) \<le> 1
       \<and> list_all (allowed {(''msg_deliveries'', ''agent_msg_id'')} {''msg_deliveries''}) t4
       \<and> length (keyQueries t4) \<le> 1
       \<and> list_all (allowed {(''chat_item_reactions'', ''chat_item_reaction_id'')}
             {''chat_item_reactions''}) t5
       \<and> length (keyQueries t5) \<le> 1))"

definition itemMarshals :: "env \<Rightarrow> string \<Rightarrow> UniversalMessage \<Rightarrow> bool" where
  "itemMarshals e jsonDir msg =
     (jsonMarshal e (itemContent e jsonDir msg) \<noteq> None \<and>
      (\<forall>q. um_QuotedMessage msg = Some q \<longrightarrow> jsonMarshal e (quotedContent q) \<noteq> None))"

text \<open>
  \<open>sends P w w'\<close>: from \<open>w\<close> to \<open>w'\<close> only statements with the property \<open>P\<close> were
  sent. \<open>insertsOnly t good st\<close>: if \<open>st\<close> is an insert into table \<open>t\<close>, each of its
  rows is \<open>good\<close> for the statement's column list.
\<close>

definition sends :: "(stmt \<Rightarrow> bool) \<Rightarrow> world \<Rightarrow> world \<Rightarrow> bool" where
  "sends P w w' = (\<exists>tr. trace w' = trace w @ tr \<and> list_all P tr)"

definition insertsOnly :: "string \<Rightarrow> (string list \<Rightarrow> val list \<Rightarrow> bool) \<Rightarrow> stmt \<Rightarrow> bool" where
  "insertsOnly t good st =
     (case st of
        InsertRows t' cs rows \<Rightarrow> t' = t \<longrightarrow> list_all (good cs) rows
      | _ \<Rightarrow> True)"

text \<open>
  The rule of the specification for one cell, in its words: the override value if
  the synthesizer has an opinion for the column, else the template's value if a
  template exists and contains the column, else null.
\<close>

definition specRowValue :: "(string \<times> val) list \<Rightarrow> (string \<times> val) list \<Rightarrow> string \<Rightarrow> val" where
  "specRowValue overrideFields templateRow col =
     (if col \<in> fst ` set overrideFields then the (map_of overrideFields col)
      else if templateRow \<noteq> [] \<and> col \<in> fst ` set templateRow then the (map_of templateRow col)
      else VNull)"

definition messageRowOf :: "env \<Rightarrow> (string \<times> val) list \<Rightarrow> string list \<Rightarrow> val list \<Rightarrow> bool" where
  "messageRowOf e templateRow cs row =
     (\<exists>msgData b. row = buildRowValues cs (messageOverrides e msgData b) templateRow)"

definition chatItemRowOf ::
  "env \<Rightarrow> int \<Rightarrow> (string \<times> val) list \<Rightarrow> string list \<Rightarrow> val list \<Rightarrow> bool" where
  "chatItemRowOf e contactID templateRow cs row =
     (\<exists>msgData b q. row = buildRowValues cs (chatItemOverrides e contactID msgData b q) templateRow)"

definition fileRowOf ::
  "int \<Rightarrow> UniversalAttachment \<Rightarrow> int \<Rightarrow> string \<Rightarrow> bool \<Rightarrow> (string \<times> val) list
     \<Rightarrow> string list \<Rightarrow> val list \<Rightarrow> bool" where
  "fileRowOf contactID attachment chatItemID messageType isSent templateRow cs row =
     (\<exists>nextFileID truncatedFilename createdAt updatedAt.
        row = buildRowValues cs
                (fileOverrides nextFileID contactID truncatedFilename attachment chatItemID
                   messageType isSent createdAt updatedAt) templateRow)"

section \<open>Observations and specification-side definitions\<close>

text \<open>
  The rows of a table cut into statements of at most \<open>k\<close> rows, in order.
\<close>

function chunksOf :: "nat \<Rightarrow> 'a list \<Rightarrow> 'a list list" where
  "chunksOf k xs = (if xs = [] \<or> k = 0 then [] else take k xs # chunksOf k (drop k xs))"
  by pat_completeness auto

termination
  by (relation "measure (\<lambda>(k, xs). length xs)") auto

declare chunksOf.simps [simp del]

text \<open>
  The inserts into table \<open>t\<close> among the statements, in order: the column list and
  the rows of each. \<open>insertedCells t c\<close> lists what the inserted rows hold in
  column \<open>c\<close>.
\<close>

fun insertsInto :: "string \<Rightarrow> stmt list \<Rightarrow> (string list \<times> val list list) list" where
  "insertsInto t [] = []"
| "insertsInto t (InsertRows t' cs rows # tr) =
     (if t' = t then (cs, rows) # insertsInto t tr else insertsInto t tr)"
| "insertsInto t (st # tr) = insertsInto t tr"

definition insertedChunks :: "string \<Rightarrow> stmt list \<Rightarrow> val list list list" where
  "insertedChunks t tr = map snd (insertsInto t tr)"

definition insertedCells :: "string \<Rightarrow> string \<Rightarrow> stmt list \<Rightarrow> val list" where
  "insertedCells t c tr =
     concat (map (\<lambda>(cs, rows). map (\<lambda>r. cell cs r c) rows) (insertsInto t tr))"

text \<open>The row a row builder returns, and the number of rows one statement takes.\<close>

definition rowOr :: "error + val list \<Rightarrow> val list" where
  "rowOr r = (case r of Inr row \<Rightarrow> row | Inl err \<Rightarrow> [])"

definition rowsPerStatement :: "nat \<Rightarrow> nat" where
  "rowsPerStatement C = (if C = 0 \<or> 900 < C then 1 else 900 div C)"

text \<open>
  \<open>preserved A w w'\<close>: from \<open>w\<close> to \<open>w'\<close> no table changed its columns, and no table
  outside \<open>A\<close> changed at all.
\<close>

definition preserved :: "string set \<Rightarrow> world \<Rightarrow> world \<Rightarrow> bool" where
  "preserved A w w' =
     (\<forall>t. map_option cols (db w' t) = map_option cols (db w t)
          \<and> (t \<notin> A \<longrightarrow> db w' t = db w t))"

text \<open>
  The tables one attachment step can write, in order: nothing, the \<^verbatim>\<open>files\<close> row
  alone, or the \<^verbatim>\<open>files\<close> row and then the transfer row, \<^verbatim>\<open>snd_files\<close> for a sent
  message and \<^verbatim>\<open>rcv_files\<close> for a received one; a video has no transfer row.
\<close>

definition fileTables :: "UniversalMessage \<Rightarrow> string list list" where
  "fileTables msg =
     (if um_Attachments msg = [] then [[]]
      else [[], [''files'']] @
           (if um_MessageType msg = ''video'' then []
            else [[''files'', if um_IsSent msg then ''snd_files'' else ''rcv_files'']]))"

text \<open>
  What a chunked step sends when every element contributes the statements \<open>segs\<close>
  of its own and each chunk of \<open>k\<close> elements ends with the statement \<open>mark\<close>.
\<close>

definition chunked :: "nat \<Rightarrow> 'o \<Rightarrow> 'o list list \<Rightarrow> 'o list" where
  "chunked k mark segs = concat (map (\<lambda>ch. concat ch @ [mark]) (chunksOf k segs))"

text \<open>The declared columns of a table, as \<^verbatim>\<open>PRAGMA table_info\<close> lists them.\<close>

definition tableColumns :: "database \<Rightarrow> string \<Rightarrow> string list" where
  "tableColumns d t = (case d t of None \<Rightarrow> [] | Some tb \<Rightarrow> cols tb)"

section \<open>A small database and export\<close>

text \<open>
  Concrete inputs on which the theorems are instantiated: an environment whose
  library functions are simple stand-ins, a database with the eight tables of the
  importer and three columns or so each, and a few messages.
\<close>

definition demoEnv :: env where
  "demoEnv =
     \<lparr> toLower = (\<lambda>s. s),
       filepathExt = (\<lambda>s. dropWhile (\<lambda>c. c \<noteq> CHR ''.'') s),
       filepathJoin = (\<lambda>a b. a @ ''/'' @ b),
       base64Encode = (\<lambda>s. s),
       timeFormat = (\<lambda>layout t. ''T''),
       timeParse = (\<lambda>s. Some 0),
       jsonMarshal = (\<lambda>j. Some ''{}''),
       sprintV = (\<lambda>j. ''?''),
       utf8Runes = (\<lambda>s. map of_char s),
       runeString = (\<lambda>r. [char_of r]),
       readFile = (\<lambda>p. Some ''img''),
       statNotExist = (\<lambda>p. False),
       videoThumbnail = (\<lambda>p. None),
       mkdirFails = (\<lambda>p. False),
       copyFails = (\<lambda>a b. False),
       rejects = (\<lambda>n d st. False),
       now = (\<lambda>n. 0),
       scanMax = (\<lambda>vs. Inl (SqlError ''converting driver value'')),
       scanMaxPlus = (\<lambda>vs k. Inl (SqlError ''converting driver value'')),
       floatOverflow = (\<lambda>n. - 9223372036854775808) \<rparr>"

text \<open>The same environment with no readable media: every attachment is missing.\<close>

definition noMediaEnv :: env where
  "noMediaEnv = demoEnv\<lparr> readFile := (\<lambda>p. None), statNotExist := (\<lambda>p. True) \<rparr>"

text \<open>The same environment with a serializer that fails.\<close>

definition noMarshalEnv :: env where
  "noMarshalEnv = demoEnv\<lparr> jsonMarshal := (\<lambda>j. None) \<rparr>"

definition demoDb :: database where
  "demoDb =
     [''messages'' \<mapsto>
        \<lparr>cols = [''message_id'', ''msg_body'', ''extra''],
         rws = [(5, [VInt 5, VBlob ''x'', VText ''keep''])]\<rparr>,
      ''chat_items'' \<mapsto>
        \<lparr>cols = [''chat_item_id'', ''item_text'', ''quoted_sent''], rws = []\<rparr>,
      ''chat_item_messages'' \<mapsto>
        \<lparr>cols = [''rowid'', ''chat_item_id'', ''message_id''], rws = []\<rparr>,
      ''msg_deliveries'' \<mapsto>
        \<lparr>cols = [''msg_delivery_id'', ''message_id'', ''agent_msg_id''],
         rws = [(6, [VInt 6, VInt 2, VInt 7]), (10, [VInt 10, VInt 3, VInt 8])]\<rparr>,
      ''files'' \<mapsto>
        \<lparr>cols = [''file_id'', ''chat_item_id'', ''file_name'', ''private_snd_file_descr''],
         rws = []\<rparr>,
      ''snd_files'' \<mapsto>
        \<lparr>cols = [''file_id'', ''last_inline_msg_delivery_id''], rws = []\<rparr>,
      ''rcv_files'' \<mapsto>
        \<lparr>cols = [''file_id'', ''file_status''], rws = []\<rparr>,
      ''chat_item_reactions'' \<mapsto> \<lparr>cols = reactionColumns, rws = []\<rparr>]"

definition demoWorld :: world where
  "demoWorld = \<lparr> db = demoDb, trace = [], ticks = 0 \<rparr>"

definition demoAuthor :: UniversalAuthor where
  "demoAuthor = \<lparr> au_ID = ''a'', au_Username = ''me'', au_DisplayName = ''me'',
                   au_AvatarURL = None, au_IsBot = False \<rparr>"

definition textMsg :: UniversalMessage where
  "textMsg =
     \<lparr> um_ID = ''1'', um_Content = ''hello'', um_Timestamp = 0, um_EditedAt = None,
       um_Author = demoAuthor, um_MessageType = ''text'', um_Platform = ''discord'',
       um_Attachments = [], um_Mentions = [], um_Reactions = [], um_ReplyToID = None,
       um_QuotedMessage = None, um_IsPinned = False, um_IsSent = True \<rparr>"

definition imageMsg :: UniversalMessage where
  "imageMsg =
     textMsg\<lparr> um_ID := ''2'', um_MessageType := ''image'',
       um_Attachments := [\<lparr> att_ID = ''f'', att_Filename = ''p.png'', att_URL = ''p.png'',
                            att_MimeType = [], att_Size = 3 \<rparr>] \<rparr>"

definition quoteOfOwn :: QuotedMessage where
  "quoteOfOwn = \<lparr> q_SharedMsgID = ''1'', q_SentAt = 0, q_Content = ''hello'', q_IsSent = True \<rparr>"

definition replyMsg :: UniversalMessage where
  "replyMsg = textMsg\<lparr> um_ID := ''3'', um_Content := ''hi back'', um_IsSent := False,
                um_ReplyToID := Some ''1'', um_QuotedMessage := Some quoteOfOwn \<rparr>"

definition discordAuthor :: DiscordAuthor where
  "discordAuthor = \<lparr> da_ID = ''a'', da_Name = ''me'', da_Discriminator = ''0'',
                      da_Nickname = [], da_IsBot = False, da_AvatarURL = [] \<rparr>"

text \<open>An export of two messages in which the first replies to the second.\<close>

definition earlyReply :: DiscordMessage where
  "earlyReply =
     \<lparr> d_ID = ''1'', d_Type = ''Reply'', d_Timestamp = ''t1'', d_TimestampEdited = None,
       d_IsPinned = False, d_Content = ''answer'', d_Author = discordAuthor,
       d_Attachments = [], d_Reactions = [], d_Mentions = [],
       d_Reference = Some \<lparr> ref_MessageID = ''2'', ref_ChannelID = ''c'' \<rparr> \<rparr>"

definition lateOriginal :: DiscordMessage where
  "lateOriginal =
     \<lparr> d_ID = ''2'', d_Type = ''Default'', d_Timestamp = ''t2'', d_TimestampEdited = None,
       d_IsPinned = False, d_Content = ''question'', d_Author = discordAuthor,
       d_Attachments = [], d_Reactions = [], d_Mentions = [], d_Reference = None \<rparr>"

definition demoAttachment :: UniversalAttachment where
  "demoAttachment = \<lparr> att_ID = ''f'', att_Filename = ''p.png'', att_URL = ''p.png'',
                        att_MimeType = [], att_Size = 3 \<rparr>"

definition faultyEnv :: env where
  "faultyEnv = noMediaEnv\<lparr> jsonMarshal :=
     (\<lambda>j. if jpath j [''params'', ''content'', ''text''] = JStr ''unserializable''
          then None else Some ''{}'') \<rparr>"

definition badMsg :: UniversalMessage where
  "badMsg = textMsg\<lparr> um_ID := ''4'', um_Content := ''unserializable'' \<rparr>"

definition imageData :: MessageInsertData where
  "imageData = \<lparr> mi_MessageID = 6, mi_ChatItemID = 1, mi_SharedMsgID = ''2'',
                  mi_Message = imageMsg \<rparr>"

definition replyData :: MessageInsertData where
  "replyData = \<lparr> mi_MessageID = 7, mi_ChatItemID = 2, mi_SharedMsgID = ''3'',
                  mi_Message = replyMsg \<rparr>"

definition quoteOfLater :: QuotedMessage where
  "quoteOfLater = \<lparr> q_SharedMsgID = ''2'', q_SentAt = 0, q_Content = ''question'',
                     q_IsSent = True \<rparr>"

definition convertedReply :: UniversalMessage where
  "convertedReply =
     \<lparr> um_ID = ''1'', um_Content = ''answer'', um_Timestamp = 0, um_EditedAt = None,
       um_Author = \<lparr> au_ID = ''a'', au_Username = ''me'', au_DisplayName = ''me'',
                     au_AvatarURL = Some [], au_IsBot = False \<rparr>,
       um_MessageType = ''text'', um_Platform = ''discord'',
       um_Attachments = [], um_Mentions = [], um_Reactions = [], um_ReplyToID = Some ''2'',
       um_QuotedMessage = Some quoteOfLater, um_IsPinned = False, um_IsSent = True \<rparr>"

definition convertedData :: MessageInsertData where
  "convertedData = \<lparr> mi_MessageID = 6, mi_ChatItemID = 1, mi_SharedMsgID = ''1'',
                      mi_Message = convertedReply \<rparr>"

section \<open>Chunk size and termination\<close>

lemma calculateChunkSize_pos:
  assumes "1 \<le> numColumns"
  shows "\<exists>cs. calculateChunkSize numColumns maxParams = Inr cs \<and> 1 \<le> cs"
  using assms by (simp add: calculateChunkSize_def Let_def)

lemma chunkLoop_terminates:
  assumes "1 \<le> cs" "0 \<le> i"
  shows "chunkLoop body xs cs i s \<noteq> None"
  using assms
proof (induction "nat (int (length xs) - i)" arbitrary: i s rule: less_induct)
  case less
  show ?case
  proof (cases "i < int (length xs)")
    case False
    then show ?thesis by (subst chunkLoop.simps) simp
  next
    case True
    define e where "e = (if i + cs > int (length xs) then int (length xs) else i + cs)"
    have e: "\<not> (i < 0 \<or> e < i)" using less.prems True by (simp add: e_def)
    obtain r s' where b: "body i e (take (nat (e - i)) (drop (nat i) xs)) s = (r, s')"
      by (cases "body i e (take (nat (e - i)) (drop (nat i) xs)) s") auto
    show ?thesis
    proof (cases r)
      case (Some err)
      with True e b show ?thesis
        by (subst chunkLoop.simps) (simp add: e_def Let_def)
    next
      case None
      have "chunkLoop body xs cs (i + cs) s' \<noteq> None"
        using less.prems True by (intro less.hyps) auto
      with None True e b show ?thesis
        by (subst chunkLoop.simps) (simp add: e_def Let_def)
    qed
  qed
qed

section \<open>Rows\<close>

lemma buildRowValues_nth:
  assumes "k < length columns"
  shows "buildRowValues columns overrideFields templateRow ! k =
           (case map_of overrideFields (columns ! k) of
              Some v \<Rightarrow> v
            | None \<Rightarrow>
                if templateRow \<noteq> [] then
                  (case map_of templateRow (columns ! k) of Some v \<Rightarrow> v | None \<Rightarrow> VNull)
                else VNull)"
  using assms by (simp add: buildRowValues_def)

lemma messageRow_Inr:
  assumes "messageRow e jsonDir columns templateRow msgData = Inr row"
  shows "\<exists>b. jsonMarshal e (msgBody e jsonDir (mi_Message msgData)) = Some b \<and>
            row = buildRowValues columns (messageOverrides e msgData b) templateRow"
  using assms by (auto simp: messageRow_def split: option.splits)

lemma chatItemRow_Inr:
  assumes "chatItemRow e jsonDir contactID columns templateRow msgData = Inr row"
  shows "\<exists>b q. jsonMarshal e (itemContent e jsonDir (mi_Message msgData)) = Some b \<and>
            (case um_QuotedMessage (mi_Message msgData) of
               None \<Rightarrow> q = None
             | Some qm \<Rightarrow> \<exists>qb. jsonMarshal e (quotedContent qm) = Some qb \<and> q = Some (qm, qb)) \<and>
            row = buildRowValues columns (chatItemOverrides e contactID msgData b q) templateRow"
  using assms by (auto simp: chatItemRow_def Let_def split: option.splits)

section \<open>Statements and loops\<close>

lemma extends_refl: "extends K A w w"
  by (simp add: extends_def)

lemma extends_trans: "extends K A a b \<Longrightarrow> extends K A b c \<Longrightarrow> extends K A a c"
  by (auto simp: extends_def)

lemma allowed_mono: "K \<subseteq> K' \<Longrightarrow> A \<subseteq> A' \<Longrightarrow> allowed K A st \<Longrightarrow> allowed K' A' st"
  by (auto simp: allowed_def split: stmt.splits)

lemma extends_mono: "K \<subseteq> K' \<Longrightarrow> A \<subseteq> A' \<Longrightarrow> extends K A w w' \<Longrightarrow> extends K' A' w w'"
  unfolding extends_def using allowed_mono [of K K' A A']
  by (auto simp: list_all_iff)

lemma allowed_list_mono:
  "list_all (allowed K A) tr \<Longrightarrow> K \<subseteq> K' \<Longrightarrow> A \<subseteq> A' \<Longrightarrow> list_all (allowed K' A') tr"
  using allowed_mono [of K K' A A'] by (auto simp: list_all_iff)

lemma reads_allowed [simp]: "list_all (allowed {} {}) tr \<Longrightarrow> list_all (allowed K A) tr"
  by (erule allowed_list_mono) auto

lemma inserts_allowed: "list_all (allowed {} A) tr \<Longrightarrow> list_all (allowed K A) tr"
  by (erule allowed_list_mono) auto

lemma send_world: "send e st w = (b, w') \<Longrightarrow> w' = w\<lparr>trace := trace w @ [st]\<rparr>"
  by (auto simp: send_def)

lemma timeNow_world: "timeNow e w = (t, w') \<Longrightarrow> w' = w\<lparr>ticks := Suc (ticks w)\<rparr>"
  by (auto simp: timeNow_def)

lemma queryMax_world:
  "queryMax e t c w = (r, w') \<Longrightarrow> w' = w\<lparr>trace := trace w @ [SelectMax t c]\<rparr>"
  by (auto simp: queryMax_def split: prod.splits bool.splits dest: send_world)

lemma queryCoalesceMax_world:
  "queryCoalesceMax e t c k w = (r, w') \<Longrightarrow> w' = w\<lparr>trace := trace w @ [SelectCoalesceMax t c k]\<rparr>"
  by (auto simp: queryCoalesceMax_def split: prod.splits bool.splits sum.splits option.splits dest: send_world)

lemma querySelectRow_world:
  "querySelectRow e t cs c k w = (r, w') \<Longrightarrow> w' = w\<lparr>trace := trace w @ [SelectRow t cs c k]\<rparr>"
  by (auto simp: querySelectRow_def split: prod.splits bool.splits option.splits list.splits if_splits dest: send_world)

lemma getTableColumns_world:
  "getTableColumns e t w = (r, w') \<Longrightarrow> w' = w\<lparr>trace := trace w @ [TableInfo t]\<rparr>"
  by (auto simp: getTableColumns_def split: prod.splits bool.splits dest: send_world)

lemma execInsert_trace:
  "execInsert e t cs rows w = (r, w') \<Longrightarrow> trace w' = trace w @ [InsertRows t cs rows] \<and> ticks w' = ticks w"
  by (auto simp: execInsert_def split: prod.splits bool.splits option.splits if_splits dest: send_world)

lemma execInsert_error_db:
  "execInsert e t cs rows w = (Some err, w') \<Longrightarrow> db w' = db w"
  by (auto simp: execInsert_def split: prod.splits bool.splits option.splits if_splits dest: send_world)

lemma getTemplateRow_world:
  assumes "getTemplateRow e t c w = (r, w')"
  shows "\<exists>tr. w' = w\<lparr>trace := trace w @ tr\<rparr> \<and> list_all (allowed {} {}) tr"
  using assms
  by (auto simp: getTemplateRow_def allowed_def split: prod.splits sum.splits option.splits
      dest!: queryMax_world getTableColumns_world querySelectRow_world)

lemma chunkLoop_done: "\<not> i < int (length xs) \<Longrightarrow> chunkLoop body xs cs i s = Some (None, s)"
  by (subst chunkLoop.simps) simp

lemma chunkLoop_step:
  assumes "i < int (length xs)" "0 \<le> i" "1 \<le> cs"
  shows "chunkLoop body xs cs i s =
           (case body i (chunkEnd xs cs i) (chunkAt xs cs i) s of
              (Some e, s') \<Rightarrow> Some (Some e, s')
            | (None, s') \<Rightarrow> chunkLoop body xs cs (i + cs) s')"
  using assms by (subst chunkLoop.simps) (simp add: chunkEnd_def chunkAt_def Let_def)

lemma chunkAt_append:
  assumes "i < int (length xs)" "0 \<le> i" "1 \<le> cs"
  shows "drop (nat i) xs = chunkAt xs cs i @ drop (nat (i + cs)) xs"
proof -
  have "nat (i + cs) = nat i + nat cs" using assms by (simp add: nat_add_distrib)
  moreover have "chunkAt xs cs i = take (nat cs) (drop (nat i) xs)"
    using assms by (auto simp: chunkAt_def chunkEnd_def)
  ultimately show ?thesis
    by (metis add.commute append_take_drop_id drop_drop)
qed

lemma chunkLoop_rule:
  assumes "chunkLoop body xs cs i s = Some (r, s')" "1 \<le> cs" "0 \<le> i"
    and step: "\<And>i end chunk s r s'. body i end chunk s = (r, s') \<Longrightarrow> R s s'"
    and refl: "\<And>s. R s s"
    and trans: "\<And>a b c. R a b \<Longrightarrow> R b c \<Longrightarrow> R a c"
  shows "R s s'"
  using assms(1,3)
proof (induction "nat (int (length xs) - i)" arbitrary: i s rule: less_induct)
  case less
  show ?case
  proof (cases "i < int (length xs)")
    case False
    with less.prems show ?thesis by (simp add: chunkLoop_done refl)
  next
    case True
    obtain b s1 where b: "body i (chunkEnd xs cs i) (chunkAt xs cs i) s = (b, s1)"
      by (cases "body i (chunkEnd xs cs i) (chunkAt xs cs i) s") auto
    have R1: "R s s1" using step [OF b] .
    show ?thesis
    proof (cases b)
      case (Some err)
      with less.prems True b assms(2) have "s' = s1"
        by (simp add: chunkLoop_step)
      with R1 show ?thesis by simp
    next
      case None
      with less.prems True b assms(2) have rec: "chunkLoop body xs cs (i + cs) s1 = Some (r, s')"
        by (simp add: chunkLoop_step)
      have "R s1 s'"
        using less.prems True assms(2) by (intro less.hyps [OF _ rec]) auto
      with R1 show ?thesis by (rule trans)
    qed
  qed
qed

lemma chunkLoop_success_all:
  assumes "chunkLoop body xs cs i s = Some (None, s')" "1 \<le> cs" "0 \<le> i"
    and step: "\<And>i end chunk s s'. body i end chunk s = (None, s') \<Longrightarrow> \<forall>x\<in>set chunk. Q x"
  shows "\<forall>x\<in>set (drop (nat i) xs). Q x"
  using assms(1,3)
proof (induction "nat (int (length xs) - i)" arbitrary: i s rule: less_induct)
  case less
  show ?case
  proof (cases "i < int (length xs)")
    case False
    then show ?thesis by simp
  next
    case True
    obtain b s1 where b: "body i (chunkEnd xs cs i) (chunkAt xs cs i) s = (b, s1)"
      by (cases "body i (chunkEnd xs cs i) (chunkAt xs cs i) s") auto
    show ?thesis
    proof (cases b)
      case (Some err)
      with less.prems True b assms(2) show ?thesis
        by (simp add: chunkLoop_step)
    next
      case None
      with less.prems True b assms(2) have rec: "chunkLoop body xs cs (i + cs) s1 = Some (None, s')"
        by (simp add: chunkLoop_step)
      have "\<forall>x\<in>set (drop (nat (i + cs)) xs). Q x"
        using less.prems True assms(2) by (intro less.hyps [OF _ rec]) auto
      moreover have "\<forall>x\<in>set (chunkAt xs cs i). Q x"
        using step b None by blast
      ultimately show ?thesis
        using chunkAt_append [OF True less.prems(2) assms(2)] by auto
    qed
  qed
qed

lemma calculateChunkSize_Inr:
  assumes "calculateChunkSize (int n) p = Inr cs"
  shows "1 \<le> cs \<and> n \<noteq> 0"
  using assms by (auto simp: calculateChunkSize_def Let_def split: if_splits)

lemma execInsert_extends:
  "execInsert e t cs rows w = (r, w') \<Longrightarrow> t \<in> A \<Longrightarrow> extends K A w w'"
  by (auto simp: extends_def allowed_def dest: execInsert_trace)

lemma insertSndFile_extends:
  assumes "insertSndFile e fileID w = (r, w')"
  shows "extends Kfiles Afiles w w'"
  using assms unfolding insertSndFile_def Let_def
  by (auto simp: extends_def allowed_def Kfiles_def Afiles_def
      split: prod.splits sum.splits option.splits if_splits
      dest!: getTemplateRow_world getTableColumns_world queryCoalesceMax_world timeNow_world
             execInsert_trace)

lemma insertRcvFile_extends:
  assumes "insertRcvFile e fileID w = (r, w')"
  shows "extends Kfiles Afiles w w'"
  using assms unfolding insertRcvFile_def Let_def
  by (auto simp: extends_def allowed_def Kfiles_def Afiles_def
      split: prod.splits sum.splits option.splits if_splits
      dest!: getTemplateRow_world getTableColumns_world queryCoalesceMax_world timeNow_world
             execInsert_trace)

lemma insertFileAttachment_extends:
  assumes "insertFileAttachment e attachment chatItemID isSent jsonDir messageType contactID
             simplexFilesDir w = (r, w')"
  shows "extends Kfiles Afiles w w'"
  using assms unfolding insertFileAttachment_def Let_def
  by (auto simp: extends_def allowed_def Kfiles_def Afiles_def
      split: prod.splits sum.splits option.splits if_splits
      dest!: getTemplateRow_world getTableColumns_world queryCoalesceMax_world timeNow_world
             execInsert_trace insertSndFile_extends insertRcvFile_extends)

lemma chatItemsChunkRows_extends:
  assumes "chatItemsChunkRows e jsonDir contactID simplexFilesDir columns templateRow chunk w = (r, w')"
  shows "extends Kfiles Afiles w w'"
  using assms
proof (induction chunk arbitrary: w r w')
  case Nil
  then show ?case by (simp add: extends_refl)
next
  case (Cons msgData rest)
  show ?case
  proof (cases "um_Attachments (mi_Message msgData)")
    case Nil
    with Cons.prems Cons.IH show ?thesis
      by (auto simp: Let_def extends_refl split: sum.splits prod.splits)
  next
    case (Cons attachment atts)
    obtain fr w1 where f: "insertFileAttachment e attachment (mi_ChatItemID msgData)
        (um_IsSent (mi_Message msgData)) jsonDir (um_MessageType (mi_Message msgData))
        contactID simplexFilesDir w = (fr, w1)"
      by (cases "insertFileAttachment e attachment (mi_ChatItemID msgData)
        (um_IsSent (mi_Message msgData)) jsonDir (um_MessageType (mi_Message msgData))
        contactID simplexFilesDir w") auto
    have e1: "extends Kfiles Afiles w w1" using insertFileAttachment_extends [OF f] .
    from Cons.prems Cons f have "w' = w1 \<or> (\<exists>r2. chatItemsChunkRows e jsonDir contactID
        simplexFilesDir columns templateRow rest w1 = (r2, w'))"
      by (auto simp: Let_def split: sum.splits prod.splits if_splits)
    then show ?thesis
      using e1 Cons.IH extends_trans by blast
  qed
qed

lemma keyQueries_append: "keyQueries (a @ b) = keyQueries a @ keyQueries b"
  by (induction a rule: keyQueries.induct) auto

lemma insertedTables_append: "insertedTables (a @ b) = insertedTables a @ insertedTables b"
  by (induction a rule: insertedTables.induct) auto

lemma allowed_keyQueries: "list_all (allowed K A) tr \<Longrightarrow> set (keyQueries tr) \<subseteq> K"
  by (induction tr rule: keyQueries.induct) (auto simp: allowed_def)

lemma allowed_insertedTables: "list_all (allowed K A) tr \<Longrightarrow> set (insertedTables tr) \<subseteq> A"
  by (induction tr rule: insertedTables.induct) (auto simp: allowed_def)

lemma messagesChunk_extends:
  assumes "messagesChunk e jsonDir columns templateRow i end chunk w = (r, w')"
  shows "extends {} {''messages''} w w'"
  using assms unfolding messagesChunk_def
  by (auto simp: extends_def allowed_def split: sum.splits prod.splits option.splits
      dest!: execInsert_trace)

lemma chatItemMessagesChunk_extends:
  assumes "chatItemMessagesChunk e columns templateRow n i end chunk w = (r, w')"
  shows "extends {} {''chat_item_messages''} w w'"
  using assms unfolding chatItemMessagesChunk_def
  by (auto simp: extends_def allowed_def split: sum.splits prod.splits option.splits
      dest!: execInsert_trace)

lemma msgDeliveriesChunk_extends:
  assumes "msgDeliveriesChunk e columns templateRow n i end chunk w = (r, w')"
  shows "extends {} {''msg_deliveries''} w w'"
  using assms unfolding msgDeliveriesChunk_def
  by (auto simp: extends_def allowed_def split: sum.splits prod.splits option.splits
      dest!: execInsert_trace)

lemma chatItemsChunk_extends:
  assumes "chatItemsChunk e jsonDir contactID simplexFilesDir columns templateRow i end chunk w = (r, w')"
  shows "extends Kfiles (insert ''chat_items'' Afiles) w w'"
proof -
  obtain rr w1 where c: "chatItemsChunkRows e jsonDir contactID simplexFilesDir columns templateRow chunk w = (rr, w1)"
    by (cases "chatItemsChunkRows e jsonDir contactID simplexFilesDir columns templateRow chunk w") auto
  have e1: "extends Kfiles (insert ''chat_items'' Afiles) w w1"
    using chatItemsChunkRows_extends [OF c] by (rule extends_mono [rotated 2]) auto
  have "w' = w1 \<or> (\<exists>rows r2. execInsert e ''chat_items'' columns rows w1 = (r2, w'))"
    using assms c unfolding chatItemsChunk_def
    by (auto split: sum.splits prod.splits option.splits)
  then show ?thesis
    using e1 execInsert_extends [of e "''chat_items''" columns _ w1 _ w' "insert ''chat_items'' Afiles" Kfiles]
      extends_trans by blast
qed

lemma chunkLoop_extends:
  assumes "chunkLoop body xs cs 0 w = Some (r, w')" "1 \<le> cs"
    and "\<And>i end chunk s r s'. body i end chunk s = (r, s') \<Longrightarrow> extends K A s s'"
  shows "extends K A w w'"
  using assms(1,2) _ assms(3)
  by (rule chunkLoop_rule [where R = "extends K A"]) (auto intro: extends_refl extends_trans)

lemma bulkInsertMessages_extends:
  assumes "bulkInsertMessages e data jsonDir contactID w = Some (r, w')"
  shows "extends {} {''messages''} w w'"
  using assms unfolding bulkInsertMessages_def
  by (auto simp: extends_def allowed_def split: prod.splits sum.splits
      dest!: getTemplateRow_world getTableColumns_world calculateChunkSize_Inr
      dest!: chunkLoop_extends [OF _ _ messagesChunk_extends])

lemma bulkInsertChatItems_extends:
  assumes "bulkInsertChatItems e data jsonDir contactID simplexFilesDir w = Some (r, w')"
  shows "extends Kfiles (insert ''chat_items'' Afiles) w w'"
  using assms unfolding bulkInsertChatItems_def
  by (auto simp: extends_def allowed_def split: prod.splits sum.splits
      dest!: getTemplateRow_world getTableColumns_world calculateChunkSize_Inr
      dest!: chunkLoop_extends [OF _ _ chatItemsChunk_extends])

lemma allowed_no_keyQueries [simp]: "list_all (allowed {} A) tr \<Longrightarrow> keyQueries tr = []"
  using allowed_keyQueries [of "{}" A tr] by simp


lemma allowed_simps [simp]:
  "allowed K A (SelectMax t c)" "allowed K A (TableInfo t)" "allowed K A (SelectRow t cs c k)"
  "allowed K A (SelectCoalesceMax t c k) = ((t, c) \<in> K)"
  "allowed K A (InsertRows t cs rows) = (t \<in> A)"
  "\<not> allowed K A Begin" "\<not> allowed K A Commit" "\<not> allowed K A Rollback"
  by (simp_all add: allowed_def)

lemma shape_combine:
  assumes "trace w1 = trace w @ pre" "extends {} A w1 w'"
    and "list_all (allowed K A) pre" "length (keyQueries pre) \<le> 1"
  shows "\<exists>tr. trace w' = trace w @ tr \<and> list_all (allowed K A) tr \<and> length (keyQueries tr) \<le> 1"
proof -
  from assms(2) obtain tr2 where t2: "trace w' = trace w1 @ tr2" "list_all (allowed {} A) tr2"
    by (auto simp: extends_def)
  have "list_all (allowed K A) (pre @ tr2)"
    using assms(3) inserts_allowed [OF t2(2)] by simp
  moreover have "length (keyQueries (pre @ tr2)) \<le> 1"
    using assms(4) t2(2) by (simp add: keyQueries_append)
  ultimately show ?thesis using t2(1) assms(1) by auto
qed

lemma bulkInsertMsgDeliveries_shape:
  assumes "bulkInsertMsgDeliveries e data w = Some (r, w')"
  shows "\<exists>tr. trace w' = trace w @ tr
           \<and> list_all (allowed {(''msg_deliveries'', ''agent_msg_id'')} {''msg_deliveries''}) tr
           \<and> length (keyQueries tr) \<le> 1"
proof -
  obtain r1 w1 where g1: "getTemplateRow e ''msg_deliveries'' ''msg_delivery_id'' w = (r1, w1)"
    by (cases "getTemplateRow e ''msg_deliveries'' ''msg_delivery_id'' w") auto
  obtain r2 w2 where g2: "getTableColumns e ''msg_deliveries'' w1 = (r2, w2)"
    by (cases "getTableColumns e ''msg_deliveries'' w1") auto
  obtain r3 w3 where g3: "queryCoalesceMax e ''msg_deliveries'' ''agent_msg_id'' 0 w2 = (r3, w3)"
    by (cases "queryCoalesceMax e ''msg_deliveries'' ''agent_msg_id'' 0 w2") auto
  from getTemplateRow_world [OF g1] obtain tr0 where
    w1: "w1 = w\<lparr>trace := trace w @ tr0\<rparr>" and tr0: "list_all (allowed {} {}) tr0" by blast
  note w2 = getTableColumns_world [OF g2]
  note w3 = queryCoalesceMax_world [OF g3]
  let ?K = "{(''msg_deliveries'', ''agent_msg_id'')}" and ?A = "{''msg_deliveries''}"
  have t1: "trace w1 = trace w @ tr0" "list_all (allowed ?K ?A) tr0" "length (keyQueries tr0) \<le> 1"
    using w1 tr0 by simp_all
  have t2: "trace w2 = trace w @ (tr0 @ [TableInfo ''msg_deliveries''])"
    "list_all (allowed ?K ?A) (tr0 @ [TableInfo ''msg_deliveries''])"
    "length (keyQueries (tr0 @ [TableInfo ''msg_deliveries''])) \<le> 1"
    using w1 w2 tr0 by (simp_all add: keyQueries_append)
  let ?pre = "tr0 @ [TableInfo ''msg_deliveries'', SelectCoalesceMax ''msg_deliveries'' ''agent_msg_id'' 0]"
  have t3: "trace w3 = trace w @ ?pre" "list_all (allowed ?K ?A) ?pre" "length (keyQueries ?pre) \<le> 1"
    using w1 w2 w3 tr0 by (simp_all add: keyQueries_append)
  consider (a) "w' = w1" | (b) "w' = w2" | (c) "w' = w3"
    | (d) columns maxAgentMsgID chunkSize templateRow where "1 \<le> chunkSize"
        "chunkLoop (msgDeliveriesChunk e columns templateRow maxAgentMsgID) (bd_Messages data)
           chunkSize 0 w3 = Some (r, w')"
    using assms g1 g2 g3 unfolding bulkInsertMsgDeliveries_def
    by (auto split: sum.splits) (metis calculateChunkSize_Inr)
  then show ?thesis
  proof cases
    case a with t1 show ?thesis by blast
  next
    case b with t2 show ?thesis by blast
  next
    case c with t3 show ?thesis by blast
  next
    case d
    have "extends {} ?A w3 w'"
      using chunkLoop_extends [OF d(2) d(1) msgDeliveriesChunk_extends] .
    from shape_combine [OF t3(1) this t3(2) t3(3)] show ?thesis .
  qed
qed

lemma bulkInsertChatItemMessages_shape:
  assumes "bulkInsertChatItemMessages e data w = Some (r, w')"
  shows "\<exists>tr. trace w' = trace w @ tr
           \<and> list_all (allowed {(''chat_item_messages'', ''rowid'')} {''chat_item_messages''}) tr
           \<and> length (keyQueries tr) \<le> 1"
proof -
  obtain r1 w1 where g1: "getTemplateRow e ''chat_item_messages'' ''rowid'' w = (r1, w1)"
    by (cases "getTemplateRow e ''chat_item_messages'' ''rowid'' w") auto
  obtain r2 w2 where g2: "getTableColumns e ''chat_item_messages'' w1 = (r2, w2)"
    by (cases "getTableColumns e ''chat_item_messages'' w1") auto
  obtain r3 w3 where g3: "queryCoalesceMax e ''chat_item_messages'' ''rowid'' 1 w2 = (r3, w3)"
    by (cases "queryCoalesceMax e ''chat_item_messages'' ''rowid'' 1 w2") auto
  from getTemplateRow_world [OF g1] obtain tr0 where
    w1: "w1 = w\<lparr>trace := trace w @ tr0\<rparr>" and tr0: "list_all (allowed {} {}) tr0" by blast
  note w2 = getTableColumns_world [OF g2]
  note w3 = queryCoalesceMax_world [OF g3]
  let ?K = "{(''chat_item_messages'', ''rowid'')}" and ?A = "{''chat_item_messages''}"
  have t1: "trace w1 = trace w @ tr0" "list_all (allowed ?K ?A) tr0" "length (keyQueries tr0) \<le> 1"
    using w1 tr0 by simp_all
  have t2: "trace w2 = trace w @ (tr0 @ [TableInfo ''chat_item_messages''])"
    "list_all (allowed ?K ?A) (tr0 @ [TableInfo ''chat_item_messages''])"
    "length (keyQueries (tr0 @ [TableInfo ''chat_item_messages''])) \<le> 1"
    using w1 w2 tr0 by (simp_all add: keyQueries_append)
  let ?pre = "tr0 @ [TableInfo ''chat_item_messages'', SelectCoalesceMax ''chat_item_messages'' ''rowid'' 1]"
  have t3: "trace w3 = trace w @ ?pre" "list_all (allowed ?K ?A) ?pre" "length (keyQueries ?pre) \<le> 1"
    using w1 w2 w3 tr0 by (simp_all add: keyQueries_append)
  consider (a) "w' = w1" | (b) "w' = w2" | (c) "w' = w3"
    | (d) columns nextRowID chunkSize templateRow where "1 \<le> chunkSize"
        "chunkLoop (chatItemMessagesChunk e columns templateRow nextRowID) (bd_Messages data)
           chunkSize 0 w3 = Some (r, w')"
    using assms g1 g2 g3 unfolding bulkInsertChatItemMessages_def
    by (auto split: sum.splits) (metis calculateChunkSize_Inr)
  then show ?thesis
  proof cases
    case a with t1 show ?thesis by blast
  next
    case b with t2 show ?thesis by blast
  next
    case c with t3 show ?thesis by blast
  next
    case d
    have "extends {} ?A w3 w'"
      using chunkLoop_extends [OF d(2) d(1) chatItemMessagesChunk_extends] .
    from shape_combine [OF t3(1) this t3(2) t3(3)] show ?thesis .
  qed
qed

lemma insertReactions_extends:
  assumes "insertReactions e contactID msgData reactions n w = ((r, n'), w')"
  shows "extends {} {''chat_item_reactions''} w w'"
  using assms
proof (induction reactions arbitrary: n w)
  case Nil
  then show ?case by (simp add: extends_refl)
next
  case (Cons reaction rest)
  obtain r1 w1 where x: "execInsert e ''chat_item_reactions'' reactionColumns
      [reactionRow e contactID msgData reaction n] w = (r1, w1)"
    by (cases "execInsert e ''chat_item_reactions'' reactionColumns
      [reactionRow e contactID msgData reaction n] w") auto
  have e1: "extends {} {''chat_item_reactions''} w w1"
    using execInsert_extends [OF x] by simp
  from Cons.prems x have "w' = w1 \<or>
      insertReactions e contactID msgData rest (wrap64 (n + 1)) w1 = ((r, n'), w')"
    by (auto split: option.splits)
  with e1 Cons.IH show ?case using extends_trans by blast
qed

lemma reactionsOfMessages_extends:
  assumes "reactionsOfMessages e contactID msgs n w = (r, w')"
  shows "extends {} {''chat_item_reactions''} w w'"
  using assms
proof (induction msgs arbitrary: n w)
  case Nil
  then show ?case by (simp add: extends_refl)
next
  case (Cons msgData rest)
  obtain r1 n1 w1 where x: "insertReactions e contactID msgData
      (um_Reactions (mi_Message msgData)) n w = ((r1, n1), w1)"
    by (cases "insertReactions e contactID msgData (um_Reactions (mi_Message msgData)) n w") auto
  have e1: "extends {} {''chat_item_reactions''} w w1"
    using insertReactions_extends [OF x] .
  from Cons.prems x have "w' = w1 \<or> reactionsOfMessages e contactID rest n1 w1 = (r, w')"
    by (auto split: option.splits)
  with e1 Cons.IH show ?case using extends_trans by blast
qed

lemma bulkInsertReactions_shape:
  assumes "bulkInsertReactions e data contactID w = (r, w')"
  shows "\<exists>tr. trace w' = trace w @ tr
           \<and> list_all (allowed {(''chat_item_reactions'', ''chat_item_reaction_id'')}
                 {''chat_item_reactions''}) tr
           \<and> length (keyQueries tr) \<le> 1"
proof -
  obtain r1 w1 where g: "queryCoalesceMax e ''chat_item_reactions'' ''chat_item_reaction_id'' 1 w = (r1, w1)"
    by (cases "queryCoalesceMax e ''chat_item_reactions'' ''chat_item_reaction_id'' 1 w") auto
  note w1 = queryCoalesceMax_world [OF g]
  let ?K = "{(''chat_item_reactions'', ''chat_item_reaction_id'')}" and ?A = "{''chat_item_reactions''}"
  let ?pre = "[SelectCoalesceMax ''chat_item_reactions'' ''chat_item_reaction_id'' 1]"
  have t: "trace w1 = trace w @ ?pre" "list_all (allowed ?K ?A) ?pre" "length (keyQueries ?pre) \<le> 1"
    using w1 by simp_all
  consider (a) "w' = w1" | (b) n where "reactionsOfMessages e contactID (bd_Messages data) n w1 = (r, w')"
    using assms g unfolding bulkInsertReactions_def by (auto split: sum.splits)
  then show ?thesis
  proof cases
    case a with t show ?thesis by blast
  next
    case b
    from shape_combine [OF t(1) reactionsOfMessages_extends [OF b] t(2) t(3)] show ?thesis .
  qed
qed

lemma bulkInsertMessages_shape:
  assumes "bulkInsertMessages e data jsonDir contactID w = Some (r, w')"
  shows "\<exists>tr. trace w' = trace w @ tr \<and> list_all (allowed {} {''messages''}) tr"
  using bulkInsertMessages_extends [OF assms] by (simp add: extends_def)

lemma bulkInsertChatItems_shape:
  assumes "bulkInsertChatItems e data jsonDir contactID simplexFilesDir w = Some (r, w')"
  shows "\<exists>tr. trace w' = trace w @ tr \<and> list_all (allowed Kfiles (insert ''chat_items'' Afiles)) tr"
  using bulkInsertChatItems_extends [OF assms] by (simp add: extends_def)

lemma batchSteps_shape:
  assumes "batchSteps e messages startMessageID jsonDir contactID simplexFilesDir w = Some (r, w')"
  shows "\<exists>t1 t2 t3 t4 t5.
           trace w' = trace w @ [SelectCoalesceMax ''chat_items'' ''chat_item_id'' 0]
                        @ t1 @ t2 @ t3 @ t4 @ t5
         \<and> list_all (allowed {} {''messages''}) t1
         \<and> list_all (allowed Kfiles (insert ''chat_items'' Afiles)) t2
         \<and> list_all (allowed {(''chat_item_messages'', ''rowid'')} {''chat_item_messages''}) t3
         \<and> length (keyQueries t3) \<le> 1
         \<and> list_all (allowed {(''msg_deliveries'', ''agent_msg_id'')} {''msg_deliveries''}) t4
         \<and> length (keyQueries t4) \<le> 1
         \<and> list_all (allowed {(''chat_item_reactions'', ''chat_item_reaction_id'')}
               {''chat_item_reactions''}) t5
         \<and> length (keyQueries t5) \<le> 1"
    (is "\<exists>t1 t2 t3 t4 t5. ?S t1 t2 t3 t4 t5")
proof -
  obtain r0 w0 where g0: "queryCoalesceMax e ''chat_items'' ''chat_item_id'' 0 w = (r0, w0)"
    by (cases "queryCoalesceMax e ''chat_items'' ''chat_item_id'' 0 w") auto
  have w0: "trace w0 = trace w @ [SelectCoalesceMax ''chat_items'' ''chat_item_id'' 0]"
    using queryCoalesceMax_world [OF g0] by simp
  show ?thesis
  proof (cases r0)
    case (Inl err)
    with assms g0 have "w' = w0" by (simp add: batchSteps_def)
    with w0 have "?S [] [] [] [] []" by simp
    then show ?thesis by blast
  next
    case (Inr maxChatItemID)
    define bulkData where "bulkData = prepareBulkData messages startMessageID maxChatItemID"
    from assms g0 Inr obtain r1 w1 where
      s1: "bulkInsertMessages e bulkData jsonDir contactID w0 = Some (r1, w1)"
      by (cases "bulkInsertMessages e bulkData jsonDir contactID w0")
         (auto simp: batchSteps_def Let_def bulkData_def)
    from bulkInsertMessages_shape [OF s1] obtain t1 where
      t1: "trace w1 = trace w0 @ t1" "list_all (allowed {} {''messages''}) t1" by blast
    show ?thesis
    proof (cases r1)
      case (Some err)
      with assms g0 Inr s1 have "w' = w1"
        by (simp add: batchSteps_def Let_def bulkData_def)
      with w0 t1 have "?S t1 [] [] [] []" by simp
      then show ?thesis by blast
    next
      case None
      from assms g0 Inr s1 None obtain r2 w2 where
        s2: "bulkInsertChatItems e bulkData jsonDir contactID simplexFilesDir w1 = Some (r2, w2)"
        by (cases "bulkInsertChatItems e bulkData jsonDir contactID simplexFilesDir w1")
           (auto simp: batchSteps_def Let_def bulkData_def)
      from bulkInsertChatItems_shape [OF s2] obtain t2 where
        t2: "trace w2 = trace w1 @ t2" "list_all (allowed Kfiles (insert ''chat_items'' Afiles)) t2"
        by blast
      show ?thesis
      proof (cases r2)
        case (Some err)
        with assms g0 Inr s1 None s2 have "w' = w2"
          by (simp add: batchSteps_def Let_def bulkData_def)
        with w0 t1 t2 have "?S t1 t2 [] [] []" by simp
        then show ?thesis by blast
      next
        case None2: None
        from assms g0 Inr s1 None s2 None2 obtain r3 w3 where
          s3: "bulkInsertChatItemMessages e bulkData w2 = Some (r3, w3)"
          by (cases "bulkInsertChatItemMessages e bulkData w2")
             (auto simp: batchSteps_def Let_def bulkData_def)
        from bulkInsertChatItemMessages_shape [OF s3] obtain t3 where
          t3: "trace w3 = trace w2 @ t3"
            "list_all (allowed {(''chat_item_messages'', ''rowid'')} {''chat_item_messages''}) t3"
            "length (keyQueries t3) \<le> 1"
          by blast
        show ?thesis
        proof (cases r3)
          case (Some err)
          with assms g0 Inr s1 None s2 None2 s3 have "w' = w3"
            by (simp add: batchSteps_def Let_def bulkData_def)
          with w0 t1 t2 t3 have "?S t1 t2 t3 [] []" by simp
          then show ?thesis by blast
        next
          case None3: None
          from assms g0 Inr s1 None s2 None2 s3 None3 obtain r4 w4 where
            s4: "bulkInsertMsgDeliveries e bulkData w3 = Some (r4, w4)"
            by (cases "bulkInsertMsgDeliveries e bulkData w3")
               (auto simp: batchSteps_def Let_def bulkData_def)
          from bulkInsertMsgDeliveries_shape [OF s4] obtain t4 where
            t4: "trace w4 = trace w3 @ t4"
              "list_all (allowed {(''msg_deliveries'', ''agent_msg_id'')} {''msg_deliveries''}) t4"
              "length (keyQueries t4) \<le> 1"
            by blast
          show ?thesis
          proof (cases r4)
            case (Some err)
            with assms g0 Inr s1 None s2 None2 s3 None3 s4 have "w' = w4"
              by (simp add: batchSteps_def Let_def bulkData_def)
            with w0 t1 t2 t3 t4 have "?S t1 t2 t3 t4 []" by simp
            then show ?thesis by blast
          next
            case None4: None
            obtain r5 w5 where s5: "bulkInsertReactions e bulkData contactID w4 = (r5, w5)"
              by (cases "bulkInsertReactions e bulkData contactID w4") auto
            from bulkInsertReactions_shape [OF s5] obtain t5 where
              t5: "trace w5 = trace w4 @ t5"
                "list_all (allowed {(''chat_item_reactions'', ''chat_item_reaction_id'')}
                    {''chat_item_reactions''}) t5"
                "length (keyQueries t5) \<le> 1"
              by blast
            from assms g0 Inr s1 None s2 None2 s3 None3 s4 None4 s5 have "w' = w5"
              by (cases r5) (simp_all add: batchSteps_def Let_def bulkData_def)
            with w0 t1 t2 t3 t4 t5 have "?S t1 t2 t3 t4 t5" by simp
            then show ?thesis by blast
          qed
        qed
      qed
    qed
  qed
qed

section \<open>The transaction\<close>

lemma send_db: "send e st w = (b, w') \<Longrightarrow> db w' = db w"
  by (auto simp: send_def)

lemma batch_result:
  assumes "bulkInsertUniversalMessages e messages startMessageID jsonDir contactID simplexFilesDir w = Some (r, w')"
  shows "(r \<noteq> None \<longrightarrow> db w' = db w) \<and>
         (r = None \<longrightarrow>
            (\<exists>w0 w1. send e Begin w = (False, w0)
               \<and> batchSteps e messages startMessageID jsonDir contactID simplexFilesDir w0 = Some (None, w1)
               \<and> send e Commit w1 = (False, w') \<and> db w' = db w1))"
  using assms unfolding bulkInsertUniversalMessages_def
  by (auto simp: rollback_def split: prod.splits bool.splits option.splits dest: send_db)

lemma batchSteps_success:
  assumes "batchSteps e messages startMessageID jsonDir contactID simplexFilesDir w0 = Some (None, w6)"
  shows "\<exists>maxChatItemID w1 w2 w3 w4 w5.
           queryCoalesceMax e ''chat_items'' ''chat_item_id'' 0 w0 = (Inr maxChatItemID, w1)
         \<and> bulkInsertMessages e (prepareBulkData messages startMessageID maxChatItemID)
               jsonDir contactID w1 = Some (None, w2)
         \<and> bulkInsertChatItems e (prepareBulkData messages startMessageID maxChatItemID)
               jsonDir contactID simplexFilesDir w2 = Some (None, w3)
         \<and> bulkInsertChatItemMessages e (prepareBulkData messages startMessageID maxChatItemID) w3
               = Some (None, w4)
         \<and> bulkInsertMsgDeliveries e (prepareBulkData messages startMessageID maxChatItemID) w4
               = Some (None, w5)
         \<and> bulkInsertReactions e (prepareBulkData messages startMessageID maxChatItemID) contactID w5
               = (None, w6)"
  using assms unfolding batchSteps_def Let_def
  by (auto split: prod.splits sum.splits option.splits)


lemma allowed_UNIV: "list_all (allowed K A) tr \<Longrightarrow> list_all (allowed UNIV UNIV) tr"
  by (erule allowed_list_mono) auto


lemma the_batch:
  assumes "x \<noteq> None"
  shows "x = Some (fst (the x), snd (the x))"
  using assms by auto


lemma chunkLoop_success_rule:
  assumes "chunkLoop body xs cs i s = Some (None, s')" "1 \<le> cs" "0 \<le> i"
    and step: "\<And>i end chunk s s'. body i end chunk s = (None, s') \<Longrightarrow> R s s'"
    and refl: "\<And>s. R s s"
    and trans: "\<And>a b c. R a b \<Longrightarrow> R b c \<Longrightarrow> R a c"
  shows "R s s'"
  using assms(1,3)
proof (induction "nat (int (length xs) - i)" arbitrary: i s rule: less_induct)
  case less
  show ?case
  proof (cases "i < int (length xs)")
    case False
    with less.prems show ?thesis by (simp add: chunkLoop_done refl)
  next
    case True
    obtain b s1 where b: "body i (chunkEnd xs cs i) (chunkAt xs cs i) s = (b, s1)"
      by (cases "body i (chunkEnd xs cs i) (chunkAt xs cs i) s") auto
    show ?thesis
    proof (cases b)
      case (Some err)
      with less.prems True b assms(2) show ?thesis
        by (simp add: chunkLoop_step)
    next
      case None
      with less.prems True b assms(2) have rec: "chunkLoop body xs cs (i + cs) s1 = Some (None, s')"
        by (simp add: chunkLoop_step)
      have "R s1 s'"
        using less.prems True assms(2) by (intro less.hyps [OF _ rec]) auto
      moreover have "R s s1" using step b None by blast
      ultimately show ?thesis using trans by blast
    qed
  qed
qed

lemma endsWithChatItems_refl: "endsWithChatItems w w"
  by (simp add: endsWithChatItems_def)

lemma endsWithChatItems_trans:
  assumes "endsWithChatItems a b" "endsWithChatItems b c"
  shows "endsWithChatItems a c"
proof -
  from assms obtain t1 t2 where
    t: "trace b = trace a @ t1" "insertedTables t1 = [] \<or> last (insertedTables t1) = ''chat_items''"
       "trace c = trace b @ t2" "insertedTables t2 = [] \<or> last (insertedTables t2) = ''chat_items''"
    by (auto simp: endsWithChatItems_def)
  have "insertedTables (t1 @ t2) = [] \<or> last (insertedTables (t1 @ t2)) = ''chat_items''"
    using t(2,4) by (auto simp: insertedTables_append last_append)
  with t(1,3) show ?thesis by (auto simp: endsWithChatItems_def)
qed

lemma chatItemsChunk_ends:
  assumes "chatItemsChunk e jsonDir contactID simplexFilesDir columns templateRow i end chunk w = (None, w')"
  shows "endsWithChatItems w w'"
proof -
  obtain rr w1 where c: "chatItemsChunkRows e jsonDir contactID simplexFilesDir columns templateRow chunk w = (rr, w1)"
    by (cases "chatItemsChunkRows e jsonDir contactID simplexFilesDir columns templateRow chunk w") auto
  from chatItemsChunkRows_extends [OF c] obtain t1 where t1: "trace w1 = trace w @ t1"
    by (auto simp: extends_def)
  from assms c obtain rows where "execInsert e ''chat_items'' columns rows w1 = (None, w')"
    unfolding chatItemsChunk_def by (auto split: sum.splits prod.splits option.splits)
  from execInsert_trace [OF this] t1
  have "trace w' = trace w @ (t1 @ [InsertRows ''chat_items'' columns rows])" by simp
  moreover have "last (insertedTables (t1 @ [InsertRows ''chat_items'' columns rows])) = ''chat_items''"
    by (simp add: insertedTables_append)
  ultimately show ?thesis unfolding endsWithChatItems_def by blast
qed

lemma bulkInsertChatItems_ends:
  assumes "bulkInsertChatItems e data jsonDir contactID simplexFilesDir w = Some (None, w')"
  shows "endsWithChatItems w w'"
proof -
  obtain r1 w1 where g1: "getTemplateRow e ''chat_items'' ''chat_item_id'' w = (r1, w1)"
    by (cases "getTemplateRow e ''chat_items'' ''chat_item_id'' w") auto
  obtain r2 w2 where g2: "getTableColumns e ''chat_items'' w1 = (r2, w2)"
    by (cases "getTableColumns e ''chat_items'' w1") auto
  from getTemplateRow_world [OF g1] obtain tr0 where
    w1: "w1 = w\<lparr>trace := trace w @ tr0\<rparr>" and tr0: "list_all (allowed {} {}) tr0" by blast
  note w2 = getTableColumns_world [OF g2]
  have "set (insertedTables tr0) \<subseteq> {}" using allowed_insertedTables [OF tr0] .
  then have pre: "endsWithChatItems w w2"
    using w1 w2 by (auto simp: endsWithChatItems_def insertedTables_append)
  from assms g1 g2 obtain columns chunkSize templateRow where l: "1 \<le> chunkSize"
        "chunkLoop (chatItemsChunk e jsonDir contactID simplexFilesDir columns templateRow)
           (bd_Messages data) chunkSize 0 w2 = Some (None, w')"
    unfolding bulkInsertChatItems_def
    by (auto split: sum.splits) (metis calculateChunkSize_Inr)
  have "endsWithChatItems w2 w'"
    using l(2) l(1) _ chatItemsChunk_ends
    by (rule chunkLoop_success_rule) (auto intro: endsWithChatItems_refl endsWithChatItems_trans)
  with pre show ?thesis by (rule endsWithChatItems_trans)
qed

lemma allowed_no_tx:
  assumes "list_all (allowed K A) tr"
  shows "Begin \<notin> set tr \<and> Commit \<notin> set tr \<and> Rollback \<notin> set tr"
  using assms by (induction tr) auto

lemma added_append: "trace w' = trace w @ tr \<Longrightarrow> added w w' = tr"
  by (simp add: added_def)

lemma batch_trace:
  assumes "bulkInsertUniversalMessages e messages startMessageID jsonDir contactID simplexFilesDir w
             = Some (r, w')"
  shows "\<exists>tr. trace w' = trace w @ tr \<and> batchStatements tr
           \<and> (r = None \<longrightarrow> tr \<noteq> [Begin] \<and> last tr = Commit)"
proof -
  obtain b0 w0 where s0: "send e Begin w = (b0, w0)" by (cases "send e Begin w") auto
  note t0 = send_world [OF s0]
  show ?thesis
  proof (cases b0)
    case True
    with assms s0 t0 show ?thesis
      by (auto simp: bulkInsertUniversalMessages_def batchStatements_def)
  next
    case False
    with assms s0 obtain r1 w1 where
      s1: "batchSteps e messages startMessageID jsonDir contactID simplexFilesDir w0 = Some (r1, w1)"
      by (cases "batchSteps e messages startMessageID jsonDir contactID simplexFilesDir w0")
         (auto simp: bulkInsertUniversalMessages_def)
    from batchSteps_shape [OF s1] obtain t1 t2 t3 t4 t5 where
      ts: "trace w1 = trace w0 @ [SelectCoalesceMax ''chat_items'' ''chat_item_id'' 0]
             @ t1 @ t2 @ t3 @ t4 @ t5"
        "list_all (allowed {} {''messages''}) t1"
        "list_all (allowed Kfiles (insert ''chat_items'' Afiles)) t2"
        "list_all (allowed {(''chat_item_messages'', ''rowid'')} {''chat_item_messages''}) t3"
        "length (keyQueries t3) \<le> 1"
        "list_all (allowed {(''msg_deliveries'', ''agent_msg_id'')} {''msg_deliveries''}) t4"
        "length (keyQueries t4) \<le> 1"
        "list_all (allowed {(''chat_item_reactions'', ''chat_item_reaction_id'')}
           {''chat_item_reactions''}) t5"
        "length (keyQueries t5) \<le> 1"
      by blast
    have "\<exists>closing. trace w' = trace w1 @ [closing] \<and> (closing = Commit \<or> closing = Rollback)
            \<and> (r = None \<longrightarrow> closing = Commit)"
    proof (cases r1)
      case (Some err)
      with assms s0 False s1 have "w' = rollback (db w) w1" "r = Some err"
        by (simp_all add: bulkInsertUniversalMessages_def)
      then show ?thesis by (simp add: rollback_def)
    next
      case None
      obtain b2 w2 where s2: "send e Commit w1 = (b2, w2)" by (cases "send e Commit w1") auto
      note t2 = send_world [OF s2]
      from assms s0 False s1 None s2 have "trace w' = trace w2"
        by (cases b2) (auto simp: bulkInsertUniversalMessages_def)
      with t2 show ?thesis by simp
    qed
    then obtain closing where
      c: "trace w' = trace w1 @ [closing]" "closing = Commit \<or> closing = Rollback"
         "r = None \<longrightarrow> closing = Commit" by blast
    define tr where "tr = [Begin, SelectCoalesceMax ''chat_items'' ''chat_item_id'' 0]
                           @ t1 @ t2 @ t3 @ t4 @ t5 @ [closing]"
    have "trace w' = trace w @ tr"
      using c(1) ts(1) t0 by (simp add: tr_def)
    moreover have "batchStatements tr"
      unfolding batchStatements_def using c(2) ts(2-) tr_def by blast
    moreover have "tr \<noteq> [Begin]" "last tr = closing" by (simp_all add: tr_def)
    ultimately show ?thesis using c(3) by auto
  qed
qed

lemma count_list_le_length: "count_list xs x \<le> length xs"
  by (induction xs) auto

lemma count_list_notin: "x \<notin> set xs \<Longrightarrow> count_list xs x = 0"
  by (induction xs) auto

lemma queryCoalesceMax_value:
  assumes "queryCoalesceMax e t c k w = (Inr n, w')"
  shows "evalCoalesceMax e (db w) t c k = Inr n"
  using assms unfolding queryCoalesceMax_def
  by (auto split: prod.splits bool.splits)

lemma prepareBulkData_keys:
  assumes "i < length messages"
  shows "mi_MessageID (bd_Messages (prepareBulkData messages startMessageID maxChatItemID) ! i)
           = wrap64 (startMessageID + int i)
       \<and> mi_ChatItemID (bd_Messages (prepareBulkData messages startMessageID maxChatItemID) ! i)
           = wrap64 (wrap64 (maxChatItemID + 1) + int i)
       \<and> mi_Message (bd_Messages (prepareBulkData messages startMessageID maxChatItemID) ! i)
           = messages ! i"
  using assms by (simp add: prepareBulkData_def nth_enumerate_eq)

lemma count_once:
  assumes "set xs \<subseteq> {x}" "length xs \<le> 1"
  shows "count_list xs y \<le> 1" "y \<noteq> x \<Longrightarrow> count_list xs y = 0"
proof -
  show "count_list xs y \<le> 1"
    using count_list_le_length [of xs y] assms(2) by simp
  show "y \<noteq> x \<Longrightarrow> count_list xs y = 0"
    using assms(1) by (intro count_list_notin) auto
qed

lemma keys_general:
  assumes kq: "kq = q1 # a @ b @ c @ d"
    and a: "set a \<subseteq> F"
    and b: "set b \<subseteq> {q2}" "length b \<le> 1"
    and c: "set c \<subseteq> {q3}" "length c \<le> 1"
    and d: "set d \<subseteq> {q4}" "length d \<le> 1"
    and dist: "distinct [q1, q2, q3, q4]" and disj: "{q1, q2, q3, q4} \<inter> F = {}"
  shows "(\<forall>q\<in>{q1, q2, q3, q4}. count_list kq q \<le> 1) \<and> set kq \<subseteq> {q1, q2, q3, q4} \<union> F"
proof
  show "set kq \<subseteq> {q1, q2, q3, q4} \<union> F"
    using kq a b(1) c(1) d(1) by auto
  show "\<forall>q\<in>{q1, q2, q3, q4}. count_list kq q \<le> 1"
  proof
    fix q assume q: "q \<in> {q1, q2, q3, q4}"
    have za: "count_list a q = 0"
      using a disj q by (intro count_list_notin) blast
    from q consider "q = q1" | "q = q2" | "q = q3" | "q = q4" by blast
    then show "count_list kq q \<le> 1"
    proof cases
      case 1
      then have "q \<noteq> q2" "q \<noteq> q3" "q \<noteq> q4" using dist by auto
      with 1 kq za count_once(2) [OF b] count_once(2) [OF c] count_once(2) [OF d]
      show ?thesis by simp
    next
      case 2
      then have "q \<noteq> q1" "q \<noteq> q3" "q \<noteq> q4" using dist by auto
      with kq za count_once(1) [OF b, of q] count_once(2) [OF c] count_once(2) [OF d]
      show ?thesis by simp
    next
      case 3
      then have "q \<noteq> q1" "q \<noteq> q2" "q \<noteq> q4" using dist by auto
      with kq za count_once(2) [OF b] count_once(1) [OF c, of q] count_once(2) [OF d]
      show ?thesis by simp
    next
      case 4
      then have "q \<noteq> q1" "q \<noteq> q2" "q \<noteq> q3" using dist by auto
      with kq za count_once(2) [OF b] count_once(2) [OF c] count_once(1) [OF d, of q]
      show ?thesis by simp
    qed
  qed
qed

lemma BatchKeys_distinct:
  "distinct [(''chat_items'', ''chat_item_id''), (''chat_item_messages'', ''rowid''),
             (''msg_deliveries'', ''agent_msg_id''),
             (''chat_item_reactions'', ''chat_item_reaction_id'')]"
  by simp

lemma BatchKeys_Kfiles: "BatchKeys \<inter> Kfiles = {}"
  by (simp add: BatchKeys_def Kfiles_def)

lemma batchStatements_keys:
  assumes "batchStatements tr"
  shows "(\<forall>q\<in>BatchKeys. count_list (keyQueries tr) q \<le> 1)
       \<and> set (keyQueries tr) \<subseteq> BatchKeys \<union> Kfiles"
proof -
  from assms consider "tr = [Begin]"
    | t1 t2 t3 t4 t5 closing where
        "tr = [Begin, SelectCoalesceMax ''chat_items'' ''chat_item_id'' 0]
                @ t1 @ t2 @ t3 @ t4 @ t5 @ [closing]"
        "closing = Commit \<or> closing = Rollback"
        "list_all (allowed {} {''messages''}) t1"
        "list_all (allowed Kfiles (insert ''chat_items'' Afiles)) t2"
        "list_all (allowed {(''chat_item_messages'', ''rowid'')} {''chat_item_messages''}) t3"
        "length (keyQueries t3) \<le> 1"
        "list_all (allowed {(''msg_deliveries'', ''agent_msg_id'')} {''msg_deliveries''}) t4"
        "length (keyQueries t4) \<le> 1"
        "list_all (allowed {(''chat_item_reactions'', ''chat_item_reaction_id'')}
             {''chat_item_reactions''}) t5"
        "length (keyQueries t5) \<le> 1"
    unfolding batchStatements_def by blast
  then show ?thesis
  proof cases
    case 1
    then show ?thesis by simp
  next
    case (2 t1 t2 t3 t4 t5 closing)
    have k1: "keyQueries t1 = []" using 2(3) by simp
    have kc: "keyQueries [closing] = []" using 2(2) by auto
    have kq: "keyQueries tr = (''chat_items'', ''chat_item_id'')
                # keyQueries t2 @ keyQueries t3 @ keyQueries t4 @ keyQueries t5"
      using k1 kc unfolding 2(1) by (simp add: keyQueries_append)
    have disj: "{(''chat_items'', ''chat_item_id''), (''chat_item_messages'', ''rowid''),
                (''msg_deliveries'', ''agent_msg_id''),
                (''chat_item_reactions'', ''chat_item_reaction_id'')} \<inter> Kfiles = {}"
      using BatchKeys_Kfiles unfolding BatchKeys_def .
    from keys_general [OF kq allowed_keyQueries [OF 2(4)] allowed_keyQueries [OF 2(5)] 2(6)
        allowed_keyQueries [OF 2(7)] 2(8) allowed_keyQueries [OF 2(9)] 2(10)
        BatchKeys_distinct disj]
    show ?thesis unfolding BatchKeys_def .
  qed
qed

lemma batchLoop_rule:
  assumes "batchLoop e ums startMessageID jsonDir contactID simplexFilesDir i w = Some (r, w')"
    and step: "\<And>batch sid w r w'.
        bulkInsertUniversalMessages e batch sid jsonDir contactID simplexFilesDir w = Some (r, w')
        \<Longrightarrow> R w w'"
    and refl: "\<And>w. R w w"
    and trans: "\<And>a b c. R a b \<Longrightarrow> R b c \<Longrightarrow> R a c"
  shows "R w w'"
  using assms(1)
proof (induction "nat (int (length ums) - i)" arbitrary: i w rule: less_induct)
  case less
  show ?case
  proof (cases "i < int (length ums)")
    case False
    with less.prems show ?thesis by (subst (asm) batchLoop.simps) (simp add: refl)
  next
    case True
    define batch where "batch = take (nat ((if i + batchSize > int (length ums)
        then int (length ums) else i + batchSize) - i)) (drop (nat i) ums)"
    from less.prems True obtain r1 w1 where
      b: "bulkInsertUniversalMessages e batch (wrap64 (startMessageID + i)) jsonDir contactID
            simplexFilesDir w = Some (r1, w1)"
      by (subst (asm) batchLoop.simps)
         (auto simp: Let_def batch_def split: option.splits)
    have R1: "R w w1" using step [OF b] .
    show ?thesis
    proof (cases r1)
      case (Some err)
      with less.prems True b have "w' = w1"
        by (subst (asm) batchLoop.simps) (simp add: Let_def batch_def)
      with R1 show ?thesis by simp
    next
      case None
      with less.prems True b have rec:
        "batchLoop e ums startMessageID jsonDir contactID simplexFilesDir (i + batchSize) w1
           = Some (r, w')"
        by (subst (asm) batchLoop.simps) (simp add: Let_def batch_def)
      have "R w1 w'"
        using True by (intro less.hyps [OF _ rec]) (simp add: batchSize_def)
      with R1 show ?thesis by (rule trans)
    qed
  qed
qed

lemma startId_notin: "(''messages'', ''message_id'') \<notin> BatchKeys \<union> Kfiles"
  by (simp add: BatchKeys_def Kfiles_def)

lemma noStartIdQuery_batch:
  assumes "bulkInsertUniversalMessages e batch sid jsonDir contactID simplexFilesDir w = Some (r, w')"
  shows "\<exists>tr. trace w' = trace w @ tr \<and> (''messages'', ''message_id'') \<notin> set (keyQueries tr)"
proof -
  from batch_trace [OF assms] obtain tr where
    tr: "trace w' = trace w @ tr" "batchStatements tr" by blast
  from batchStatements_keys [OF tr(2)] startId_notin
  have "(''messages'', ''message_id'') \<notin> set (keyQueries tr)" by blast
  with tr(1) show ?thesis by blast
qed

lemma batchLoop_noStartIdQuery:
  assumes "batchLoop e ums startMessageID jsonDir contactID simplexFilesDir i w = Some (r, w')"
  shows "\<exists>tr. trace w' = trace w @ tr \<and> (''messages'', ''message_id'') \<notin> set (keyQueries tr)"
  using assms
proof (rule batchLoop_rule)
  show "\<exists>tr. trace w = trace w @ tr \<and> (''messages'', ''message_id'') \<notin> set (keyQueries tr)" for w
    by simp
  show "\<exists>tr. trace c = trace a @ tr \<and> (''messages'', ''message_id'') \<notin> set (keyQueries tr)"
    if "\<exists>tr. trace b = trace a @ tr \<and> (''messages'', ''message_id'') \<notin> set (keyQueries tr)"
      "\<exists>tr. trace c = trace b @ tr \<and> (''messages'', ''message_id'') \<notin> set (keyQueries tr)"
    for a b c :: world
  proof -
    from that obtain t1 t2 where "trace b = trace a @ t1" "trace c = trace b @ t2"
      "(''messages'', ''message_id'') \<notin> set (keyQueries t1)"
      "(''messages'', ''message_id'') \<notin> set (keyQueries t2)" by blast
    then have "trace c = trace a @ (t1 @ t2)"
      "(''messages'', ''message_id'') \<notin> set (keyQueries (t1 @ t2))"
      by (simp_all add: keyQueries_append)
    then show ?thesis by blast
  qed
qed (rule noStartIdQuery_batch)

lemma importExport_startId_once:
  assumes "importExport e exportMessages myUsername jsonDir contactID simplexFilesDir w = Some (r, w')"
  shows "count_list (keyQueries (added w w')) (''messages'', ''message_id'') = 1"
proof -
  obtain r0 w0 where g: "queryCoalesceMax e ''messages'' ''message_id'' 1 w = (r0, w0)"
    by (cases "queryCoalesceMax e ''messages'' ''message_id'' 1 w") auto
  have w0: "trace w0 = trace w @ [SelectCoalesceMax ''messages'' ''message_id'' 1]"
    using queryCoalesceMax_world [OF g] by simp
  have "w' = w0 \<or> (\<exists>ums sid. batchLoop e ums sid jsonDir contactID simplexFilesDir 0 w0 = Some (r, w'))"
    using assms g unfolding importExport_def
    by (auto split: sum.splits prod.splits)
  then have "\<exists>tr. trace w' = trace w0 @ tr \<and> (''messages'', ''message_id'') \<notin> set (keyQueries tr)"
    using batchLoop_noStartIdQuery by auto
  then obtain tr where tr: "trace w' = trace w0 @ tr"
    "(''messages'', ''message_id'') \<notin> set (keyQueries tr)" by blast
  have "added w w' = SelectCoalesceMax ''messages'' ''message_id'' 1 # tr"
    using tr(1) w0 by (simp add: added_def)
  with count_list_notin [OF tr(2)] show ?thesis by simp
qed

lemma getTemplateRow_db: "getTemplateRow e t c w = (r, w') \<Longrightarrow> db w' = db w"
  by (auto dest!: getTemplateRow_world)

lemma insertFileAttachment_key:
  assumes "insertFileAttachment e attachment chatItemID isSent jsonDir messageType contactID
             simplexFilesDir w = (Inr fileID, w')"
  shows "evalCoalesceMax e (db w) ''files'' ''file_id'' 1 = Inr fileID"
proof -
  from assms obtain tmpl w1 w2 where
    g: "getTemplateRow e ''files'' ''file_id'' w = (Inr tmpl, w1)"
       "queryCoalesceMax e ''files'' ''file_id'' 1 w1 = (Inr fileID, w2)"
    unfolding insertFileAttachment_def Let_def
    by (auto split: prod.splits sum.splits option.splits if_splits)
  from queryCoalesceMax_value [OF g(2)] getTemplateRow_db [OF g(1)] show ?thesis by simp
qed

lemma chunkRows_Inr:
  assumes "chunkRows f j xs = Inr rows"
  shows "length rows = length xs \<and> (\<forall>k<length xs. f (j + int k) (xs ! k) = Inr (rows ! k))"
  using assms
proof (induction xs arbitrary: j rows)
  case Nil
  then show ?case by simp
next
  case (Cons x xs)
  from Cons.prems obtain r rs where
    r: "f j x = Inr r" "chunkRows f (j + 1) xs = Inr rs" "rows = r # rs"
    by (auto split: sum.splits)
  from Cons.IH [OF r(2)] have ih: "length rs = length xs"
    "\<forall>k<length xs. f (j + 1 + int k) (xs ! k) = Inr (rs ! k)" by auto
  show ?case
  proof (intro conjI allI impI)
    show "length rows = length (x # xs)" using r(3) ih(1) by simp
    fix k assume "k < length (x # xs)"
    then show "f (j + int k) ((x # xs) ! k) = Inr (rows ! k)"
      using r ih(2) by (cases k) (auto simp: add.assoc)
  qed
qed

lemma messagesChunk_success:
  assumes "messagesChunk e jsonDir columns templateRow i end chunk w = (None, w')"
  shows "\<forall>x\<in>set chunk. jsonMarshal e (msgBody e jsonDir (mi_Message x)) \<noteq> None"
proof -
  from assms obtain rows where
    r: "chunkRows (\<lambda>j. messageRow e jsonDir columns templateRow) 0 chunk = Inr rows"
    unfolding messagesChunk_def by (auto split: sum.splits)
  from chunkRows_Inr [OF r]
  have "\<forall>k<length chunk. messageRow e jsonDir columns templateRow (chunk ! k) = Inr (rows ! k)"
    by simp
  then have "\<forall>k<length chunk. jsonMarshal e (msgBody e jsonDir (mi_Message (chunk ! k))) \<noteq> None"
    using messageRow_Inr by fastforce
  then show ?thesis by (metis in_set_conv_nth)
qed

lemma bulkInsertMessages_success:
  assumes "bulkInsertMessages e data jsonDir contactID w = Some (None, w')"
  shows "\<forall>x\<in>set (bd_Messages data). jsonMarshal e (msgBody e jsonDir (mi_Message x)) \<noteq> None"
proof -
  from assms obtain templateRow columns chunkSize w2 where l: "1 \<le> chunkSize"
    "chunkLoop (messagesChunk e jsonDir columns templateRow) (bd_Messages data) chunkSize 0 w2
       = Some (None, w')"
    unfolding bulkInsertMessages_def
    by (auto split: sum.splits prod.splits) (metis calculateChunkSize_Inr)
  have "\<forall>x\<in>set (drop (nat 0) (bd_Messages data)).
          jsonMarshal e (msgBody e jsonDir (mi_Message x)) \<noteq> None"
    using l(2) l(1) _ messagesChunk_success by (rule chunkLoop_success_all) simp
  then show ?thesis by simp
qed

lemma chatItemRow_marshals:
  assumes "chatItemRow e jsonDir contactID columns templateRow msgData = Inr row"
  shows "itemMarshals e jsonDir (mi_Message msgData)"
  using assms unfolding chatItemRow_def itemMarshals_def Let_def
  by (auto split: option.splits)

lemma chatItemsChunkRows_success:
  assumes "chatItemsChunkRows e jsonDir contactID simplexFilesDir columns templateRow chunk w
             = (Inr rows, w')"
  shows "\<forall>x\<in>set chunk. itemMarshals e jsonDir (mi_Message x)"
  using assms
proof (induction chunk arbitrary: w rows)
  case Nil
  then show ?case by simp
next
  case (Cons msgData rest)
  from Cons.prems obtain row w1 rs where
    "chatItemRow e jsonDir contactID columns templateRow msgData = Inr row"
    "chatItemsChunkRows e jsonDir contactID simplexFilesDir columns templateRow rest w1 = (Inr rs, w')"
    by (auto simp: Let_def split: sum.splits prod.splits option.splits list.splits if_splits)
  with Cons.IH chatItemRow_marshals show ?case by auto
qed

lemma chatItemsChunk_success:
  assumes "chatItemsChunk e jsonDir contactID simplexFilesDir columns templateRow i end chunk w
             = (None, w')"
  shows "\<forall>x\<in>set chunk. itemMarshals e jsonDir (mi_Message x)"
  using assms unfolding chatItemsChunk_def
  by (auto split: sum.splits prod.splits option.splits dest!: chatItemsChunkRows_success)

lemma bulkInsertChatItems_success:
  assumes "bulkInsertChatItems e data jsonDir contactID simplexFilesDir w = Some (None, w')"
  shows "\<forall>x\<in>set (bd_Messages data). itemMarshals e jsonDir (mi_Message x)"
proof -
  from assms obtain templateRow columns chunkSize w2 where l: "1 \<le> chunkSize"
    "chunkLoop (chatItemsChunk e jsonDir contactID simplexFilesDir columns templateRow)
       (bd_Messages data) chunkSize 0 w2 = Some (None, w')"
    unfolding bulkInsertChatItems_def
    by (auto split: sum.splits prod.splits) (metis calculateChunkSize_Inr)
  have "\<forall>x\<in>set (drop (nat 0) (bd_Messages data)). itemMarshals e jsonDir (mi_Message x)"
    using l(2) l(1) _ chatItemsChunk_success by (rule chunkLoop_success_all) simp
  then show ?thesis by simp
qed

lemma prepareBulkData_messages:
  "map mi_Message (bd_Messages (prepareBulkData messages startMessageID maxChatItemID)) = messages"
  by (auto simp: prepareBulkData_def intro!: nth_equalityI simp: nth_enumerate_eq)

lemma batch_success_marshals:
  assumes "bulkInsertUniversalMessages e messages startMessageID jsonDir contactID simplexFilesDir w
             = Some (None, w')"
    and "msg \<in> set messages"
  shows "jsonMarshal e (msgBody e jsonDir msg) \<noteq> None \<and> itemMarshals e jsonDir msg"
proof -
  from batch_result [OF assms(1)] obtain w0 w6 where
    "batchSteps e messages startMessageID jsonDir contactID simplexFilesDir w0 = Some (None, w6)"
    by blast
  from batchSteps_success [OF this] obtain maxChatItemID w1 w2 w3 where
    st: "bulkInsertMessages e (prepareBulkData messages startMessageID maxChatItemID)
               jsonDir contactID w1 = Some (None, w2)"
        "bulkInsertChatItems e (prepareBulkData messages startMessageID maxChatItemID)
               jsonDir contactID simplexFilesDir w2 = Some (None, w3)"
    by blast
  let ?data = "prepareBulkData messages startMessageID maxChatItemID"
  from assms(2) have "msg \<in> set (map mi_Message (bd_Messages ?data))"
    by (simp add: prepareBulkData_messages)
  then obtain x where x: "x \<in> set (bd_Messages ?data)" "mi_Message x = msg" by auto
  from bulkInsertMessages_success [OF st(1)] bulkInsertChatItems_success [OF st(2)] x
  show ?thesis by blast
qed

lemma messageRow_marshalled:
  assumes "jsonMarshal e (msgBody e jsonDir (mi_Message msgData)) = Some b"
  shows "messageRow e jsonDir columns templateRow msgData
           = Inr (buildRowValues columns (messageOverrides e msgData b) templateRow)"
  using assms by (simp add: messageRow_def)

lemma chatItemRow_marshalled:
  assumes "itemMarshals e jsonDir (mi_Message msgData)"
  shows "\<exists>row. chatItemRow e jsonDir contactID columns templateRow msgData = Inr row"
  using assms unfolding itemMarshals_def chatItemRow_def Let_def
  by (auto split: option.splits)

lemma chatItemsChunkRows_file_error:
  assumes "um_Attachments (mi_Message msgData) = attachment # atts"
    and "insertFileAttachment e attachment (mi_ChatItemID msgData) (um_IsSent (mi_Message msgData))
           jsonDir (um_MessageType (mi_Message msgData)) contactID simplexFilesDir w = (Inl err, w1)"
    and "\<not> isPanic err"
  shows "chatItemsChunkRows e jsonDir contactID simplexFilesDir columns templateRow
           (msgData # rest) w =
         (case chatItemRow e jsonDir contactID columns templateRow msgData of
            Inl err' \<Rightarrow> (Inl err', w1)
          | Inr row \<Rightarrow>
              (case chatItemsChunkRows e jsonDir contactID simplexFilesDir columns templateRow
                      rest w1 of
                 (Inl err', w2) \<Rightarrow> (Inl err', w2)
               | (Inr rs, w2) \<Rightarrow> (Inr (row # rs), w2)))"
  using assms by (simp add: Let_def)

lemma buildMappings_fold:
  assumes "fold (\<lambda>discordMsg (discordToSharedMsgID, discordMessages).
             (discordToSharedMsgID(d_ID discordMsg \<mapsto> d_ID discordMsg),
              discordMessages(d_ID discordMsg \<mapsto> discordMsg))) messages (a, b) = (a', b')"
  shows "(a' k \<noteq> None) = (k \<in> d_ID ` set messages \<or> a k \<noteq> None)
       \<and> (b' k \<noteq> None) = (k \<in> d_ID ` set messages \<or> b k \<noteq> None)"
  using assms
proof (induction messages arbitrary: a b)
  case Nil
  then show ?case by simp
next
  case (Cons m ms)
  from Cons.prems Cons.IH [of "a(d_ID m \<mapsto> d_ID m)" "b(d_ID m \<mapsto> m)"]
  show ?case by auto
qed

lemma buildMappings_dom:
  assumes "buildMappings messages = (discordToSharedMsgID, discordMessages)"
  shows "(discordToSharedMsgID k \<noteq> None) = (k \<in> d_ID ` set messages)"
    and "(discordMessages k \<noteq> None) = (k \<in> d_ID ` set messages)"
  using buildMappings_fold [OF assms [unfolded buildMappings_def], of k] by simp_all

lemma convertAll_Inr:
  assumes "convertAll e myUsername m1 m2 jsonDir messages = Inr us"
  shows "length us = length messages
       \<and> (\<forall>k<length messages.
            ConvertDiscordMessage e (messages ! k) myUsername m1 m2 jsonDir = Inr (us ! k))"
  using assms
proof (induction messages arbitrary: us)
  case Nil
  then show ?case by simp
next
  case (Cons m ms)
  from Cons.prems obtain u rest where
    u: "ConvertDiscordMessage e m myUsername m1 m2 jsonDir = Inr u"
       "convertAll e myUsername m1 m2 jsonDir ms = Inr rest" "us = u # rest"
    by (auto split: sum.splits)
  from Cons.IH [OF u(2)] u(1,3) show ?case
    by (auto simp: nth_Cons split: nat.splits)
qed

lemma ConvertDiscordMessage_quote:
  assumes "ConvertDiscordMessage e d myUsername m1 m2 jsonDir = Inr u"
  shows "um_QuotedMessage u = snd (resolveReply e myUsername m1 m2 (d_Reference d))"
  using assms unfolding ConvertDiscordMessage_def Let_def
  by (auto split: sum.splits prod.splits)

lemma resolveReply_quote:
  "snd (resolveReply e myUsername m1 m2 (Some reference)) =
     (case m1 (ref_MessageID reference) of
        None \<Rightarrow> None
      | Some sharedMsgID \<Rightarrow>
          (case m2 (ref_MessageID reference) of
             None \<Rightarrow> None
           | Some quotedDiscordMsg \<Rightarrow>
               Some \<lparr> q_SharedMsgID = sharedMsgID,
                      q_SentAt = parseOrZero e (d_Timestamp quotedDiscordMsg),
                      q_Content = d_Content quotedDiscordMsg,
                      q_IsSent = (da_Name (d_Author quotedDiscordMsg) = myUsername) \<rparr>))"
  by (simp add: resolveReply_def Let_def split: option.splits)

lemma msgBody_quote_sent:
  assumes "um_QuotedMessage msg = Some q"
  shows "jpath (msgBody e jsonDir msg) [''params'', ''quote'', ''msgRef'', ''sent''] = JBool False"
proof -
  obtain content fileInfo where mc: "messageContent e jsonDir msg = (content, fileInfo)"
    by (cases "messageContent e jsonDir msg") auto
  show ?thesis
    using assms mc
    by (cases fileInfo) (simp_all add: msgBody_def Let_def jget_def quoteParam_def)
qed

lemma chatItemOverrides_quoted_sent:
  "map_of (chatItemOverrides e contactID msgData b (Some (q, qb))) ''quoted_sent''
     = Some (VInt (if q_IsSent q then 1 else 0))"
  by (simp add: chatItemOverrides_def Let_def)

lemma chatItemRow_quoted_sent:
  assumes "um_QuotedMessage (mi_Message msgData) = Some q"
    and "chatItemRow e jsonDir contactID columns templateRow msgData = Inr row"
    and "k < length columns" "columns ! k = ''quoted_sent''"
  shows "row ! k = VInt (if q_IsSent q then 1 else 0)"
proof -
  from chatItemRow_Inr [OF assms(2)] assms(1) obtain b qb where
    "row = buildRowValues columns (chatItemOverrides e contactID msgData b (Some (q, qb))) templateRow"
    by auto
  with assms(3,4) show ?thesis
    by (simp add: buildRowValues_nth chatItemOverrides_quoted_sent)
qed

lemma ConvertDiscordMessage_quote_sent:
  assumes "ConvertDiscordMessage e d myUsername m1 m2 jsonDir = Inr u"
    and "um_QuotedMessage u = Some q"
  shows "\<exists>reference quotedDiscordMsg.
           d_Reference d = Some reference
         \<and> m2 (ref_MessageID reference) = Some quotedDiscordMsg
         \<and> q_IsSent q = (da_Name (d_Author quotedDiscordMsg) = myUsername)"
proof -
  from ConvertDiscordMessage_quote [OF assms(1)] assms(2)
  have s: "snd (resolveReply e myUsername m1 m2 (d_Reference d)) = Some q" by simp
  then obtain reference where r: "d_Reference d = Some reference"
    by (cases "d_Reference d") (auto simp: resolveReply_def)
  from s show ?thesis
    unfolding r resolveReply_quote by (auto split: option.splits)
qed

lemma buildRowValues_spec:
  "buildRowValues columns overrideFields templateRow
     = map (specRowValue overrideFields templateRow) columns"
proof -
  have m: "(col \<in> fst ` set xs) = (map_of xs col \<noteq> None)" for col and xs :: "(string \<times> val) list"
    by (simp add: map_of_eq_None_iff)
  show ?thesis
    unfolding buildRowValues_def specRowValue_def m
    by (auto split: option.splits)
qed

lemma sends_refl: "sends P w w"
  by (simp add: sends_def)

lemma sends_trans: "sends P a b \<Longrightarrow> sends P b c \<Longrightarrow> sends P a c"
  by (auto simp: sends_def)

lemma sends_mono: "sends P w w' \<Longrightarrow> (\<And>st. P st \<Longrightarrow> Q st) \<Longrightarrow> sends Q w w'"
  by (auto simp: sends_def list_all_iff)

lemma extends_sends: "extends K A w w' = sends (allowed K A) w w'"
  by (simp add: extends_def sends_def)

lemma sends_added:
  assumes "sends P w w'" "st \<in> set (added w w')"
  shows "P st"
  using assms by (auto simp: sends_def added_def list_all_iff)

lemma allowed_insertsOnly: "allowed K A st \<Longrightarrow> t \<notin> A \<Longrightarrow> insertsOnly t good st"
  by (auto simp: allowed_def insertsOnly_def split: stmt.splits)

lemma execInsert_sends:
  assumes "execInsert e t cs rows w = (r, w')" "P (InsertRows t cs rows)"
  shows "sends P w w'"
  using execInsert_trace [OF assms(1)] assms(2) by (simp add: sends_def)

lemma getTemplateRow_sends:
  assumes "getTemplateRow e t c w = (r, w')"
  shows "sends (allowed {} {}) w w'"
  using getTemplateRow_world [OF assms] by (auto simp: sends_def)

lemma getTableColumns_sends:
  assumes "getTableColumns e t w = (r, w')"
  shows "sends (allowed {} {}) w w'"
  using getTableColumns_world [OF assms] by (auto simp: sends_def)

lemma queryCoalesceMax_sends:
  assumes "queryCoalesceMax e t c k w = (r, w')"
  shows "sends (allowed {(t, c)} {}) w w'"
  using queryCoalesceMax_world [OF assms] by (auto simp: sends_def)

lemma timeNow_sends: "timeNow e w = (t, w') \<Longrightarrow> sends P w w'"
  by (auto simp: sends_def dest!: timeNow_world)

lemma chunkLoop_sends:
  assumes "chunkLoop body xs cs 0 w = Some (r, w')" "1 \<le> cs"
    and "\<And>i end chunk s r s'. body i end chunk s = (r, s') \<Longrightarrow> sends P s s'"
  shows "sends P w w'"
  using assms(1,2) _ assms(3)
  by (rule chunkLoop_rule [where R = "sends P"]) (auto intro: sends_refl sends_trans)

lemma messagesChunk_sends:
  assumes "messagesChunk e jsonDir columns templateRow i end chunk w = (r, w')"
  shows "sends (insertsOnly ''messages'' (messageRowOf e templateRow)) w w'"
proof (cases "chunkRows (\<lambda>j. messageRow e jsonDir columns templateRow) 0 chunk")
  case (Inl err)
  with assms show ?thesis by (simp add: messagesChunk_def sends_refl)
next
  case (Inr rows)
  from chunkRows_Inr [OF Inr] have
    "\<forall>k<length rows. messageRow e jsonDir columns templateRow (chunk ! k) = Inr (rows ! k)"
    by simp
  then have "\<forall>k<length rows. messageRowOf e templateRow columns (rows ! k)"
    unfolding messageRowOf_def using messageRow_Inr by blast
  then have good: "list_all (messageRowOf e templateRow columns) rows"
    by (simp add: list_all_length)
  from assms Inr obtain r1 where x: "execInsert e ''messages'' columns rows w = (r1, w')"
    by (auto simp: messagesChunk_def split: prod.splits option.splits)
  have "insertsOnly ''messages'' (messageRowOf e templateRow) (InsertRows ''messages'' columns rows)"
    using good by (simp add: insertsOnly_def)
  with x show ?thesis by (rule execInsert_sends)
qed

lemma bulkInsertMessages_rows:
  assumes "bulkInsertMessages e data jsonDir contactID w = Some (r, w')"
    and "InsertRows ''messages'' cs rows \<in> set (added w w')" and "row \<in> set rows"
  shows "\<exists>templateRow w1 msgData b.
           getTemplateRow e ''messages'' ''message_id'' w = (Inr templateRow, w1)
         \<and> row = buildRowValues cs (messageOverrides e msgData b) templateRow"
proof -
  obtain r1 w1 where g1: "getTemplateRow e ''messages'' ''message_id'' w = (r1, w1)"
    by (cases "getTemplateRow e ''messages'' ''message_id'' w") auto
  obtain r2 w2 where g2: "getTableColumns e ''messages'' w1 = (r2, w2)"
    by (cases "getTableColumns e ''messages'' w1") auto
  have pre: "sends (allowed {} {}) w w1" "sends (allowed {} {}) w w2"
    using getTemplateRow_sends [OF g1] getTableColumns_sends [OF g2] sends_trans by blast+
  have no: "\<not> allowed {} {} (InsertRows ''messages'' cs rows)" by simp
  show ?thesis
  proof (cases r1)
    case (Inl err)
    with assms(1) g1 have "w' = w1" by (simp add: bulkInsertMessages_def)
    with sends_added [OF pre(1)] assms(2) no show ?thesis by blast
  next
    case (Inr templateRow)
    let ?P = "insertsOnly ''messages'' (messageRowOf e templateRow)"
    have "sends ?P w w'"
    proof -
      from assms(1) g1 g2 Inr consider "w' = w2"
        | columns chunkSize where "1 \<le> chunkSize"
            "chunkLoop (messagesChunk e jsonDir columns templateRow) (bd_Messages data)
               chunkSize 0 w2 = Some (r, w')"
        unfolding bulkInsertMessages_def
        by (auto split: sum.splits) (metis calculateChunkSize_Inr)
      then show ?thesis
      proof cases
        case 1
        with pre(2) show ?thesis
          by (auto elim!: sends_mono intro: allowed_insertsOnly)
      next
        case 2
        have "sends ?P w2 w'"
          using 2(2) 2(1) messagesChunk_sends by (rule chunkLoop_sends)
        moreover have "sends ?P w w2"
          using pre(2) by (auto elim!: sends_mono intro: allowed_insertsOnly)
        ultimately show ?thesis using sends_trans by blast
      qed
    qed
    from sends_added [OF this assms(2)] assms(3)
    have "messageRowOf e templateRow cs row"
      by (simp add: insertsOnly_def list_all_iff)
    with g1 Inr show ?thesis unfolding messageRowOf_def by blast
  qed
qed

lemma insertSndFile_sends:
  assumes "insertSndFile e fileID w = (r, w')"
  shows "sends (allowed Kfiles {''snd_files''}) w w'"
  using assms unfolding insertSndFile_def Let_def
  by (auto simp: sends_def allowed_def Kfiles_def
      split: prod.splits sum.splits option.splits if_splits
      dest!: getTemplateRow_world getTableColumns_world queryCoalesceMax_world timeNow_world
             execInsert_trace)

lemma insertRcvFile_sends:
  assumes "insertRcvFile e fileID w = (r, w')"
  shows "sends (allowed Kfiles {''rcv_files''}) w w'"
  using assms unfolding insertRcvFile_def Let_def
  by (auto simp: sends_def allowed_def Kfiles_def
      split: prod.splits sum.splits option.splits if_splits
      dest!: getTemplateRow_world getTableColumns_world queryCoalesceMax_world timeNow_world
             execInsert_trace)

lemma transfer_sends:
  assumes "(if isSent then insertSndFile e fileID w else insertRcvFile e fileID w) = (r, w')"
  shows "sends (insertsOnly ''files'' good) w w'"
proof (cases isSent)
  case True
  with assms insertSndFile_sends have "sends (allowed Kfiles {''snd_files''}) w w'" by simp
  then show ?thesis by (rule sends_mono) (auto intro: allowed_insertsOnly)
next
  case False
  with assms insertRcvFile_sends have "sends (allowed Kfiles {''rcv_files''}) w w'" by simp
  then show ?thesis by (rule sends_mono) (auto intro: allowed_insertsOnly)
qed

lemma reads_insertsOnly:
  assumes "sends (allowed K {}) w w'"
  shows "sends (insertsOnly t good) w w'"
  using assms by (rule sends_mono) (auto intro: allowed_insertsOnly)

lemma insertFileAttachment_sends:
  assumes "insertFileAttachment e attachment chatItemID isSent jsonDir messageType contactID
             simplexFilesDir w = (r, w')"
    and g1: "getTemplateRow e ''files'' ''file_id'' w = (Inr templateRow, w1)"
  shows "sends (insertsOnly ''files''
           (fileRowOf contactID attachment chatItemID messageType isSent templateRow)) w w'"
    (is "sends ?P w w'")
proof -
  obtain r2 w2 where g2: "queryCoalesceMax e ''files'' ''file_id'' 1 w1 = (r2, w2)"
    by (cases "queryCoalesceMax e ''files'' ''file_id'' 1 w1") auto
  obtain r3 w3 where g3: "getTableColumns e ''files'' w2 = (r3, w3)"
    by (cases "getTableColumns e ''files'' w2") auto
  obtain t1 w4 where n1: "timeNow e w3 = (t1, w4)" by (cases "timeNow e w3") auto
  obtain t2 w5 where n2: "timeNow e w4 = (t2, w5)" by (cases "timeNow e w4") auto
  have s1: "sends ?P w w1" using getTemplateRow_sends [OF g1] by (rule reads_insertsOnly)
  have "sends ?P w1 w2" using queryCoalesceMax_sends [OF g2] by (rule reads_insertsOnly)
  with s1 have s2: "sends ?P w w2" by (rule sends_trans)
  have "sends ?P w2 w3" using getTableColumns_sends [OF g3] by (rule reads_insertsOnly)
  with s2 have s3: "sends ?P w w3" by (rule sends_trans)
  have s5: "sends ?P w w5"
    using s3 timeNow_sends [OF n1] timeNow_sends [OF n2] sends_trans by blast
  from assms(1) g1 g2 g3 n1 n2 consider "w' = w" | "w' = w1" | "w' = w2" | "w' = w3" | "w' = w5"
    | nextFileID columns truncatedFilename r6 w6 where
        "execInsert e ''files'' columns
           [buildRowValues columns
              (fileOverrides nextFileID contactID truncatedFilename attachment chatItemID
                 messageType isSent (timeFormat e sqlTime t1) (timeFormat e sqlTime t2))
              templateRow] w5 = (r6, w6)"
        "w' = w6 \<or> (\<exists>r7. (if isSent then insertSndFile e nextFileID w6
                             else insertRcvFile e nextFileID w6) = (r7, w'))"
    unfolding insertFileAttachment_def Let_def
    by (auto split: sum.splits option.splits prod.splits if_splits)
  then show ?thesis
  proof cases
    case 1 then show ?thesis by (simp add: sends_refl)
  next
    case 2 with s1 show ?thesis by simp
  next
    case 3 with s2 show ?thesis by simp
  next
    case 4 with s3 show ?thesis by simp
  next
    case 5 with s5 show ?thesis by simp
  next
    case (6 nextFileID columns truncatedFilename r6 w6)
    have "?P (InsertRows ''files'' columns
           [buildRowValues columns
              (fileOverrides nextFileID contactID truncatedFilename attachment chatItemID
                 messageType isSent (timeFormat e sqlTime t1) (timeFormat e sqlTime t2))
              templateRow])"
      unfolding insertsOnly_def fileRowOf_def by auto
    with 6(1) have "sends ?P w5 w6" by (rule execInsert_sends)
    with s5 have s6: "sends ?P w w6" by (rule sends_trans)
    from 6(2) show ?thesis
    proof
      assume "w' = w6" with s6 show ?thesis by simp
    next
      assume "\<exists>r7. (if isSent then insertSndFile e nextFileID w6
                             else insertRcvFile e nextFileID w6) = (r7, w')"
      then obtain r7 where "(if isSent then insertSndFile e nextFileID w6
                             else insertRcvFile e nextFileID w6) = (r7, w')" by blast
      from s6 transfer_sends [OF this] show ?thesis by (rule sends_trans)
    qed
  qed
qed

lemma insertFileAttachment_rows:
  assumes "insertFileAttachment e attachment chatItemID isSent jsonDir messageType contactID
             simplexFilesDir w = (r, w')"
    and "InsertRows ''files'' cs rows \<in> set (added w w')" and "row \<in> set rows"
  shows "\<exists>templateRow w1 nextFileID truncatedFilename createdAt updatedAt.
           getTemplateRow e ''files'' ''file_id'' w = (Inr templateRow, w1)
         \<and> row = buildRowValues cs
                   (fileOverrides nextFileID contactID truncatedFilename attachment chatItemID
                      messageType isSent createdAt updatedAt) templateRow"
proof -
  obtain r1 w1 where g1: "getTemplateRow e ''files'' ''file_id'' w = (r1, w1)"
    by (cases "getTemplateRow e ''files'' ''file_id'' w") auto
  have no: "\<not> allowed {} {} (InsertRows ''files'' cs rows)" by simp
  show ?thesis
  proof (cases r1)
    case (Inl err)
    with assms(1) g1 have "w' = w \<or> w' = w1"
      unfolding insertFileAttachment_def Let_def by (auto split: if_splits)
    then have "sends (allowed {} {}) w w'"
      using getTemplateRow_sends [OF g1] sends_refl by blast
    from sends_added [OF this assms(2)] no show ?thesis by blast
  next
    case (Inr templateRow)
    from sends_added [OF insertFileAttachment_sends [OF assms(1) g1 [unfolded Inr]] assms(2)]
      assms(3)
    have "fileRowOf contactID attachment chatItemID messageType isSent templateRow cs row"
      by (simp add: insertsOnly_def list_all_iff)
    with g1 Inr show ?thesis unfolding fileRowOf_def by blast
  qed
qed

lemma chatItemsChunkRows_rows:
  assumes "chatItemsChunkRows e jsonDir contactID simplexFilesDir columns templateRow chunk w
             = (Inr rows, w')"
  shows "list_all (chatItemRowOf e contactID templateRow columns) rows"
  using assms
proof (induction chunk arbitrary: w rows)
  case Nil
  then show ?case by simp
next
  case (Cons msgData rest)
  from Cons.prems obtain row w1 rs where
    r: "chatItemRow e jsonDir contactID columns templateRow msgData = Inr row"
       "chatItemsChunkRows e jsonDir contactID simplexFilesDir columns templateRow rest w1
          = (Inr rs, w')"
       "rows = row # rs"
    by (auto simp: Let_def split: sum.splits prod.splits option.splits list.splits if_splits)
  from chatItemRow_Inr [OF r(1)] have "chatItemRowOf e contactID templateRow columns row"
    unfolding chatItemRowOf_def by blast
  with Cons.IH [OF r(2)] r(3) show ?case by simp
qed

lemma files_not_chat_items: "''chat_items'' \<notin> Afiles"
  by (simp add: Afiles_def)

lemma chatItemsChunk_sends:
  assumes "chatItemsChunk e jsonDir contactID simplexFilesDir columns templateRow i end chunk w
             = (r, w')"
  shows "sends (insertsOnly ''chat_items'' (chatItemRowOf e contactID templateRow)) w w'"
    (is "sends ?P w w'")
proof -
  obtain rr w1 where c: "chatItemsChunkRows e jsonDir contactID simplexFilesDir columns
      templateRow chunk w = (rr, w1)"
    by (cases "chatItemsChunkRows e jsonDir contactID simplexFilesDir columns templateRow chunk w")
       auto
  have "sends (allowed Kfiles Afiles) w w1"
    using chatItemsChunkRows_extends [OF c] by (simp add: extends_sends)
  then have s1: "sends ?P w w1"
    by (rule sends_mono) (rule allowed_insertsOnly [OF _ files_not_chat_items])
  show ?thesis
  proof (cases rr)
    case (Inl err)
    with assms c have "w' = w1" by (simp add: chatItemsChunk_def)
    with s1 show ?thesis by simp
  next
    case (Inr rows)
    from assms c Inr obtain r1 where x: "execInsert e ''chat_items'' columns rows w1 = (r1, w')"
      by (auto simp: chatItemsChunk_def split: prod.splits option.splits)
    have "?P (InsertRows ''chat_items'' columns rows)"
      using chatItemsChunkRows_rows [OF c [unfolded Inr]] by (simp add: insertsOnly_def)
    with x have "sends ?P w1 w'" by (rule execInsert_sends)
    with s1 show ?thesis by (rule sends_trans)
  qed
qed

lemma bulkInsertChatItems_rows:
  assumes "bulkInsertChatItems e data jsonDir contactID simplexFilesDir w = Some (r, w')"
    and "InsertRows ''chat_items'' cs rows \<in> set (added w w')" and "row \<in> set rows"
  shows "\<exists>templateRow w1 msgData b q.
           getTemplateRow e ''chat_items'' ''chat_item_id'' w = (Inr templateRow, w1)
         \<and> row = buildRowValues cs (chatItemOverrides e contactID msgData b q) templateRow"
proof -
  obtain r1 w1 where g1: "getTemplateRow e ''chat_items'' ''chat_item_id'' w = (r1, w1)"
    by (cases "getTemplateRow e ''chat_items'' ''chat_item_id'' w") auto
  obtain r2 w2 where g2: "getTableColumns e ''chat_items'' w1 = (r2, w2)"
    by (cases "getTableColumns e ''chat_items'' w1") auto
  have pre: "sends (allowed {} {}) w w1" "sends (allowed {} {}) w w2"
    using getTemplateRow_sends [OF g1] getTableColumns_sends [OF g2] sends_trans by blast+
  have no: "\<not> allowed {} {} (InsertRows ''chat_items'' cs rows)" by simp
  show ?thesis
  proof (cases r1)
    case (Inl err)
    with assms(1) g1 have "w' = w1" by (simp add: bulkInsertChatItems_def)
    with sends_added [OF pre(1)] assms(2) no show ?thesis by blast
  next
    case (Inr templateRow)
    let ?P = "insertsOnly ''chat_items'' (chatItemRowOf e contactID templateRow)"
    have "sends ?P w w'"
    proof -
      from assms(1) g1 g2 Inr consider "w' = w2"
        | columns chunkSize where "1 \<le> chunkSize"
            "chunkLoop (chatItemsChunk e jsonDir contactID simplexFilesDir columns templateRow)
               (bd_Messages data) chunkSize 0 w2 = Some (r, w')"
        unfolding bulkInsertChatItems_def
        by (auto split: sum.splits) (metis calculateChunkSize_Inr)
      then show ?thesis
      proof cases
        case 1
        with pre(2) show ?thesis by (auto intro: reads_insertsOnly)
      next
        case 2
        have "sends ?P w2 w'"
          using 2(2) 2(1) chatItemsChunk_sends by (rule chunkLoop_sends)
        moreover have "sends ?P w w2"
          using pre(2) by (rule reads_insertsOnly)
        ultimately show ?thesis using sends_trans by blast
      qed
    qed
    from sends_added [OF this assms(2)] assms(3)
    have "chatItemRowOf e contactID templateRow cs row"
      by (simp add: insertsOnly_def list_all_iff)
    with g1 Inr show ?thesis unfolding chatItemRowOf_def by blast
  qed
qed

section \<open>Integers and chunks\<close>

lemma wrap64_id: "int64 n \<Longrightarrow> wrap64 n = n"
  by (simp add: wrap64_def int64_def)

lemma wrap64_int64: "int64 (wrap64 n)"
  by (simp add: wrap64_def int64_def)

lemma wrap64_add_left: "wrap64 (wrap64 a + b) = wrap64 (a + b)"
proof -
  define C :: int where "C = 9223372036854775808"
  define M :: int where "M = 18446744073709551616"
  have w: "wrap64 n = (n + C) mod M - C" for n by (simp add: wrap64_def C_def M_def)
  have "wrap64 a + b + C = (a + C) mod M + b" by (simp add: w)
  then have "(wrap64 a + b + C) mod M = ((a + C) mod M + b) mod M" by (rule arg_cong)
  also have "\<dots> = (a + C + b) mod M" by (rule mod_add_left_eq)
  also have "a + C + b = a + b + C" by simp
  finally show ?thesis by (simp add: w)
qed

lemma chunksOf_Nil [simp]: "chunksOf k [] = []"
  by (simp add: chunksOf.simps)

lemma chunksOf_single: "xs \<noteq> [] \<Longrightarrow> length xs \<le> k \<Longrightarrow> chunksOf k xs = [xs]"
proof -
  assume a: "xs \<noteq> []" "length xs \<le> k"
  then have "k \<noteq> 0" by (cases xs) auto
  with a show ?thesis by (subst chunksOf.simps) auto
qed

lemma chunksOf_append:
  "length a = k \<Longrightarrow> 0 < k \<Longrightarrow> chunksOf k (a @ b) = a # chunksOf k b"
  by (subst chunksOf.simps) auto

lemma chunksOf_concat: "0 < k \<Longrightarrow> concat (chunksOf k xs) = xs"
proof (induction k xs rule: chunksOf.induct)
  case (1 k xs)
  then show ?case by (subst chunksOf.simps) auto
qed

lemma chunksOf_each: "c \<in> set (chunksOf k xs) \<Longrightarrow> c \<noteq> [] \<and> length c \<le> k"
proof (induction k xs rule: chunksOf.induct)
  case (1 k xs)
  from "1.prems" have ne: "xs \<noteq> []" "k \<noteq> 0" by (auto simp: chunksOf.simps [of k xs] split: if_splits)
  from "1.prems" ne have "c = take k xs \<or> c \<in> set (chunksOf k (drop k xs))"
    by (subst (asm) chunksOf.simps) auto
  then show ?case using "1.IH" ne by auto
qed

lemma chunksOf_length: "0 < k \<Longrightarrow> length (chunksOf k xs) = (length xs + k - 1) div k"
proof (induction k xs rule: chunksOf.induct)
  case (1 k xs)
  show ?case
  proof (cases "xs = []")
    case True
    then show ?thesis using "1.prems" by simp
  next
    case False
    obtain m where L: "length xs = Suc m" using False by (cases xs) auto
    have k0: "k \<noteq> 0" using "1.prems" by simp
    have a: "(m + k) div k = Suc (m div k)" using div_add_self2 [OF k0, of m] by simp
    have ih: "length (chunksOf k (drop k xs)) = (length (drop k xs) + k - 1) div k"
      using "1.IH" False "1.prems" by simp
    have "length (chunksOf k xs) = Suc (length (chunksOf k (drop k xs)))"
      using False k0 by (subst chunksOf.simps) simp
    also have "\<dots> = Suc ((length xs - k + k - 1) div k)" using ih by simp
    also have "\<dots> = (length xs + k - 1) div k"
    proof (cases "k \<le> length xs")
      case True
      then have "length xs - k + k - 1 = m" using L by simp
      then show ?thesis using a L by simp
    next
      case False
      then have "length xs - k + k - 1 = k - 1" "m div k = 0" using L by simp_all
      then show ?thesis using a L "1.prems" by simp
    qed
    finally show ?thesis .
  qed
qed

lemma chunksOf_map: "chunksOf k (map f xs) = map (map f) (chunksOf k xs)"
proof (induction k xs rule: chunksOf.induct)
  case (1 k xs)
  show ?case
  proof (cases "xs = [] \<or> k = 0")
    case True
    then show ?thesis by (auto simp: chunksOf.simps)
  next
    case False
    then have "chunksOf k (map f xs) = take k (map f xs) # chunksOf k (drop k (map f xs))"
      by (subst chunksOf.simps) simp
    also have "\<dots> = map f (take k xs) # map (map f) (chunksOf k (drop k xs))"
      using "1.IH" False by (simp add: take_map drop_map)
    also have "\<dots> = map (map f) (chunksOf k xs)"
      using False by (subst (2) chunksOf.simps) simp
    finally show ?thesis .
  qed
qed

lemma enumerate_shift:
  "map (\<lambda>(j, x). F (int i + int j) x) (enumerate 0 xs) = map (\<lambda>(g, x). F (int g) x) (enumerate i xs)"
  by (induction xs arbitrary: i rule: rev_induct) (auto simp: enumerate_append_eq)

lemma take_length_take: "take (length (take k ys)) ys = take k ys"
  by (cases "k \<le> length ys") (simp_all add: min_def)

lemma chunkLoop_chunksOf:
  assumes "chunkLoop body xs cs i s = Some (r, s')" "1 \<le> cs" "0 \<le> i"
    and step: "\<And>i end chunk s b s1. body i end chunk s = (b, s1) \<Longrightarrow> 0 \<le> i \<Longrightarrow>
        (obs s1 = obs s @ [H (map (\<lambda>(j, x). F (i + int j) x) (enumerate 0 chunk))]
           \<and> (\<forall>x\<in>set chunk. Q x))
        \<or> (b \<noteq> None \<and> obs s1 = obs s)"
  shows "\<exists>n. n \<le> length xs - nat i \<and> (r = None \<longrightarrow> n = length xs - nat i)
           \<and> (\<forall>x\<in>set (take n (drop (nat i) xs)). Q x)
           \<and> obs s' = obs s @ map H (chunksOf (nat cs)
               (map (\<lambda>(g, x). F (int g) x) (enumerate (nat i) (take n (drop (nat i) xs)))))"
  using assms(1,3)
proof (induction "nat (int (length xs) - i)" arbitrary: i s rule: less_induct)
  case less
  let ?rows = "\<lambda>i n. map (\<lambda>(g, x). F (int g) x) (enumerate (nat i) (take n (drop (nat i) xs)))"
  show ?case
  proof (cases "i < int (length xs)")
    case False
    with less.prems have "s' = s" "r = None" by (simp_all add: chunkLoop_done)
    moreover from False have "length xs - nat i = 0" by simp
    ultimately show ?thesis by (intro exI [of _ 0]) simp
  next
    case True
    let ?c = "chunkAt xs cs i"
    obtain b s1 where b: "body i (chunkEnd xs cs i) ?c s = (b, s1)"
      by (cases "body i (chunkEnd xs cs i) ?c s") auto
    have c: "?c = take (nat cs) (drop (nat i) xs)"
      using True less.prems(2) assms(2) by (auto simp: chunkAt_def chunkEnd_def)
    have ne: "?c \<noteq> []" "length ?c \<le> nat cs" "length ?c \<le> length xs - nat i"
      using True less.prems(2) assms(2) unfolding c by auto
    have k: "0 < nat cs" using assms(2) by simp
    have rowsc: "map (\<lambda>(j, x). F (i + int j) x) (enumerate 0 ?c)
                   = map (\<lambda>(g, x). F (int g) x) (enumerate (nat i) ?c)"
      using enumerate_shift [of F "nat i" ?c] less.prems(2) by simp
    have single: "chunksOf (nat cs) (map (\<lambda>(g, x). F (int g) x) (enumerate (nat i) ?c))
                    = [map (\<lambda>(g, x). F (int g) x) (enumerate (nat i) ?c)]"
      using ne by (intro chunksOf_single) (auto simp: enumerate_eq_zip)
    from step [OF b less.prems(2)] consider
        (sent) "obs s1 = obs s @ [H (map (\<lambda>(g, x). F (int g) x) (enumerate (nat i) ?c))]"
               "\<forall>x\<in>set ?c. Q x"
      | (quiet) "b \<noteq> None" "obs s1 = obs s"
      unfolding rowsc by blast
    then show ?thesis
    proof cases
      case quiet
      with less.prems True b assms(2) have "s' = s1" "r \<noteq> None"
        by (auto simp: chunkLoop_step)
      with quiet show ?thesis by (intro exI [of _ 0]) auto
    next
      case sent
      show ?thesis
      proof (cases b)
        case (Some err)
        with less.prems True b assms(2) have e: "s' = s1" "r \<noteq> None"
          by (auto simp: chunkLoop_step)
        have t: "take (length ?c) (drop (nat i) xs) = ?c" unfolding c by (rule take_length_take)
        show ?thesis
          using e sent ne single t by (intro exI [of _ "length ?c"]) auto
      next
        case None
        with less.prems True b assms(2) have rec: "chunkLoop body xs cs (i + cs) s1 = Some (r, s')"
          by (simp add: chunkLoop_step)
        have "\<exists>n. n \<le> length xs - nat (i + cs) \<and> (r = None \<longrightarrow> n = length xs - nat (i + cs))
           \<and> (\<forall>x\<in>set (take n (drop (nat (i + cs)) xs)). Q x)
           \<and> obs s' = obs s1 @ map H (chunksOf (nat cs) (?rows (i + cs) n))"
          using less.prems True assms(2) by (intro less.hyps [OF _ rec]) auto
        then obtain n where n: "n \<le> length xs - nat (i + cs)"
            "r = None \<longrightarrow> n = length xs - nat (i + cs)"
            "\<forall>x\<in>set (take n (drop (nat (i + cs)) xs)). Q x"
            "obs s' = obs s1 @ map H (chunksOf (nat cs) (?rows (i + cs) n))"
          by blast
        have ics: "nat (i + cs) = nat i + nat cs"
          using less.prems(2) assms(2) by (simp add: nat_add_distrib)
        show ?thesis
        proof (cases "n = 0")
          case True
          have t: "take (length ?c) (drop (nat i) xs) = ?c" unfolding c by (rule take_length_take)
          have full: "r = None \<longrightarrow> length ?c = length xs - nat i"
            using n(2) True ics unfolding c by auto
          from True n(4) have "obs s' = obs s1" by simp
          then show ?thesis
            using sent ne single t full by (intro exI [of _ "length ?c"]) auto
        next
          case False
          then have more: "nat i + nat cs < length xs" using n(1) ics by simp
          then have lc: "length ?c = nat cs" unfolding c by simp
          have dd: "drop (nat cs) (drop (nat i) xs) = drop (nat i + nat cs) xs"
            by (simp add: add.commute)
          have t: "take (nat cs + n) (drop (nat i) xs) = ?c @ take n (drop (nat (i + cs)) xs)"
            unfolding c ics take_add dd ..
          have en: "?rows i (nat cs + n)
                      = map (\<lambda>(g, x). F (int g) x) (enumerate (nat i) ?c) @ ?rows (i + cs) n"
            unfolding t by (simp add: enumerate_append_eq lc ics)
          have ch: "chunksOf (nat cs) (?rows i (nat cs + n))
                      = map (\<lambda>(g, x). F (int g) x) (enumerate (nat i) ?c)
                          # chunksOf (nat cs) (?rows (i + cs) n)"
            unfolding en using lc k by (intro chunksOf_append) simp_all
          have "nat cs + n \<le> length xs - nat i" using n(1) ics more by arith
          moreover have "r = None \<longrightarrow> nat cs + n = length xs - nat i"
            using n(2) ics more by (cases r) auto
          moreover have "\<forall>x\<in>set (take (nat cs + n) (drop (nat i) xs)). Q x"
            unfolding t using sent(2) n(3) by auto
          moreover have "obs s' = obs s @ map H (chunksOf (nat cs) (?rows i (nat cs + n)))"
            unfolding ch using n(4) sent(1) by simp
          ultimately show ?thesis by blast
        qed
      qed
    qed
  qed
qed

lemma insertsInto_append: "insertsInto t (a @ b) = insertsInto t a @ insertsInto t b"
  by (induction t a rule: insertsInto.induct) auto

lemma insertsInto_allowed:
  "list_all (allowed K A) tr \<Longrightarrow> t \<notin> A \<Longrightarrow> insertsInto t tr = []"
  by (induction t tr rule: insertsInto.induct) (auto simp: allowed_def)

lemma calculateChunkSize_rows:
  assumes "calculateChunkSize (int C) 900 = Inr cs"
  shows "nat cs = rowsPerStatement C \<and> 1 \<le> cs \<and> C \<noteq> 0"
proof -
  from calculateChunkSize_Inr [OF assms] have p: "1 \<le> cs" "C \<noteq> 0" by auto
  have s: "900 sdiv int C = 900 div int C" using p by (simp add: signed_divide_int_def)
  have "cs = (if 900 div int C < 1 then 1 else 900 div int C)"
    using assms p s by (auto simp: calculateChunkSize_def Let_def)
  moreover have "900 < C \<Longrightarrow> 900 div int C = 0" by (simp add: div_pos_pos_trivial)
  moreover have "C \<le> 900 \<Longrightarrow> 1 \<le> 900 div int C"
    using p(2) zdiv_mono1 [of "int C" 900 "int C"] by simp
  moreover have "nat (900 div int C) = 900 div C"
    by (metis nat_int of_nat_numeral zdiv_int)
  ultimately show ?thesis using p by (auto simp: rowsPerStatement_def)
qed

lemma chunkRows_rowOr:
  assumes "chunkRows f j xs = Inr rows"
  shows "rows = map (\<lambda>(k, x). rowOr (f (j + int k) x)) (enumerate 0 xs)
       \<and> (\<forall>k<length xs. \<exists>row. f (j + int k) (xs ! k) = Inr row)"
proof -
  from chunkRows_Inr [OF assms] have
    l: "length rows = length xs" and
    n: "\<forall>k<length xs. f (j + int k) (xs ! k) = Inr (rows ! k)" by simp_all
  have "rows = map (\<lambda>(k, x). rowOr (f (j + int k) x)) (enumerate 0 xs)"
    using l n by (intro nth_equalityI) (auto simp: nth_enumerate_eq rowOr_def)
  with n show ?thesis by blast
qed

lemma simpleChunk_step:
  assumes "(case chunkRows f 0 chunk of
              Inl err \<Rightarrow> (Some err, w)
            | Inr rows \<Rightarrow>
                (case execInsert e t columns rows w of
                   (Some err, w') \<Rightarrow> (Some (wrapErr msg err), w')
                 | (None, w') \<Rightarrow> (None, w'))) = (b, w1)"
  shows "(insertsInto t (trace w1) = insertsInto t (trace w) @
            [(columns, map (\<lambda>(j, x). rowOr (f (int j) x)) (enumerate 0 chunk))]
          \<and> (\<forall>k<length chunk. \<exists>row. f (int k) (chunk ! k) = Inr row))
       \<or> (b \<noteq> None \<and> insertsInto t (trace w1) = insertsInto t (trace w))"
proof (cases "chunkRows f 0 chunk")
  case (Inl err)
  with assms show ?thesis by auto
next
  case (Inr rows)
  from chunkRows_rowOr [OF Inr] have
    rows: "rows = map (\<lambda>(j, x). rowOr (f (int j) x)) (enumerate 0 chunk)"
    and ok: "\<forall>k<length chunk. \<exists>row. f (int k) (chunk ! k) = Inr row" by simp_all
  from assms Inr obtain r1 where x: "execInsert e t columns rows w = (r1, w1)"
    by (auto split: prod.splits option.splits)
  from execInsert_trace [OF x] rows ok show ?thesis
    by (simp add: insertsInto_append)
qed

lemma stage_loop:
  assumes loop: "chunkLoop body xs cs 0 w2 = Some (r, w')" "1 \<le> cs"
    and step: "\<And>i end chunk s b s1. body i end chunk s = (b, s1) \<Longrightarrow> 0 \<le> i \<Longrightarrow>
        (insertsInto t (trace s1) = insertsInto t (trace s) @
           [(columns, map (\<lambda>(j, x). F (i + int j) x) (enumerate 0 chunk))]
           \<and> (\<forall>x\<in>set chunk. Q x))
        \<or> (b \<noteq> None \<and> insertsInto t (trace s1) = insertsInto t (trace s))"
    and pre: "trace w2 = trace w @ pre" "insertsInto t pre = []"
    and ext: "\<exists>tr. trace w' = trace w2 @ tr"
  shows "\<exists>n. n \<le> length xs \<and> (r = None \<longrightarrow> n = length xs)
           \<and> (\<forall>x\<in>set (take n xs). Q x)
           \<and> insertsInto t (added w w') = map (Pair columns) (chunksOf (nat cs)
               (map (\<lambda>(g, x). F (int g) x) (enumerate 0 (take n xs))))"
proof -
  have "\<exists>n. n \<le> length xs - nat 0 \<and> (r = None \<longrightarrow> n = length xs - nat 0)
           \<and> (\<forall>x\<in>set (take n (drop (nat 0) xs)). Q x)
           \<and> insertsInto t (trace w') = insertsInto t (trace w2) @ map (Pair columns)
               (chunksOf (nat cs)
                 (map (\<lambda>(g, x). F (int g) x) (enumerate (nat 0) (take n (drop (nat 0) xs)))))"
    using loop
  proof (rule chunkLoop_chunksOf [where obs = "\<lambda>s. insertsInto t (trace s)"])
    show "(0::int) \<le> 0" by simp
  next
    fix i "end" chunk s b s1
    assume "body i end chunk s = (b, s1)" "0 \<le> i"
    then show "(insertsInto t (trace s1) = insertsInto t (trace s) @
           [(columns, map (\<lambda>(j, x). F (i + int j) x) (enumerate 0 chunk))]
           \<and> (\<forall>x\<in>set chunk. Q x))
        \<or> (b \<noteq> None \<and> insertsInto t (trace s1) = insertsInto t (trace s))"
      by (rule step)
  qed
  then obtain n where n: "n \<le> length xs" "r = None \<longrightarrow> n = length xs"
      "\<forall>x\<in>set (take n xs). Q x"
      "insertsInto t (trace w') = insertsInto t (trace w2) @ map (Pair columns)
         (chunksOf (nat cs) (map (\<lambda>(g, x). F (int g) x) (enumerate 0 (take n xs))))"
    by auto
  from ext obtain tr where tr: "trace w' = trace w2 @ tr" by blast
  from n(4) have "insertsInto t tr = map (Pair columns)
         (chunksOf (nat cs) (map (\<lambda>(g, x). F (int g) x) (enumerate 0 (take n xs))))"
    unfolding tr by (simp add: insertsInto_append)
  moreover have "added w w' = pre @ tr" using tr pre(1) by (simp add: added_def)
  ultimately have "insertsInto t (added w w') = map (Pair columns)
         (chunksOf (nat cs) (map (\<lambda>(g, x). F (int g) x) (enumerate 0 (take n xs))))"
    using pre(2) by (simp add: insertsInto_append)
  with n show ?thesis by blast
qed

lemma extends_ex: "extends K A w w' \<Longrightarrow> \<exists>tr. trace w' = trace w @ tr"
  by (auto simp: extends_def)

lemma enumerate_const: "map (\<lambda>(g, x). f x) (enumerate n xs) = map f xs"
  by (induction xs arbitrary: n) auto

lemma bulkInsertMessages_inserts:
  assumes "bulkInsertMessages e data jsonDir contactID w = Some (r, w')"
  shows "(r \<noteq> None \<and> insertsInto ''messages'' (added w w') = [])
       \<or> (\<exists>tmpl w1 columns w2 n.
            getTemplateRow e ''messages'' ''message_id'' w = (Inr tmpl, w1)
          \<and> getTableColumns e ''messages'' w1 = (Inr columns, w2)
          \<and> columns \<noteq> []
          \<and> n \<le> length (bd_Messages data) \<and> (r = None \<longrightarrow> n = length (bd_Messages data))
          \<and> (\<forall>m\<in>set (take n (bd_Messages data)).
                \<exists>row. messageRow e jsonDir columns tmpl m = Inr row)
          \<and> insertsInto ''messages'' (added w w') = map (Pair columns)
               (chunksOf (rowsPerStatement (length columns))
                  (map (\<lambda>m. rowOr (messageRow e jsonDir columns tmpl m))
                     (take n (bd_Messages data)))))"
proof -
  let ?t = "''messages''"
  obtain r1 w1 where g1: "getTemplateRow e ?t ''message_id'' w = (r1, w1)"
    by (cases "getTemplateRow e ?t ''message_id'' w") auto
  obtain r2 w2 where g2: "getTableColumns e ?t w1 = (r2, w2)"
    by (cases "getTableColumns e ?t w1") auto
  from getTemplateRow_world [OF g1] obtain p1 where
    p1: "trace w1 = trace w @ p1" "list_all (allowed {} {}) p1" by auto
  from getTableColumns_world [OF g2] have p2: "trace w2 = trace w1 @ [TableInfo ?t]" by simp
  have q1: "insertsInto ?t p1 = []" using p1(2) by (rule insertsInto_allowed) simp
  have pre: "trace w2 = trace w @ (p1 @ [TableInfo ?t])"
    "insertsInto ?t (p1 @ [TableInfo ?t]) = []"
    using p1 p2 q1 by (simp_all add: insertsInto_append)
  have quiet: "w' = w1 \<or> w' = w2 \<Longrightarrow> insertsInto ?t (added w w') = []"
    using p1 p2 q1 by (auto simp: added_def insertsInto_append)
  show ?thesis
  proof (cases r1)
    case (Inl err)
    with assms g1 have "w' = w1" "r \<noteq> None" by (auto simp: bulkInsertMessages_def)
    with quiet show ?thesis by simp
  next
    case tm: (Inr tmpl)
    show ?thesis
    proof (cases r2)
      case (Inl err)
      with assms g1 g2 tm have "w' = w2" "r \<noteq> None" by (auto simp: bulkInsertMessages_def)
      with quiet show ?thesis by simp
    next
      case co: (Inr columns)
      show ?thesis
      proof (cases "calculateChunkSize (int (length columns)) 900")
        case (Inl err)
        with assms g1 g2 tm co have "w' = w2" "r \<noteq> None"
          by (auto simp: bulkInsertMessages_def)
        with quiet show ?thesis by simp
      next
        case (Inr cs)
        from calculateChunkSize_rows [OF Inr] have
          cs: "nat cs = rowsPerStatement (length columns)" "1 \<le> cs" "columns \<noteq> []" by auto
        from assms g1 g2 tm co Inr have
          loop: "chunkLoop (messagesChunk e jsonDir columns tmpl) (bd_Messages data) cs 0 w2
                   = Some (r, w')"
          by (simp add: bulkInsertMessages_def)
        have ext: "\<exists>tr. trace w' = trace w2 @ tr"
          using chunkLoop_extends [OF loop cs(2) messagesChunk_extends] by (rule extends_ex)
        have "\<exists>n. n \<le> length (bd_Messages data) \<and> (r = None \<longrightarrow> n = length (bd_Messages data))
           \<and> (\<forall>m\<in>set (take n (bd_Messages data)).
                 \<exists>row. messageRow e jsonDir columns tmpl m = Inr row)
           \<and> insertsInto ?t (added w w') = map (Pair columns) (chunksOf (nat cs)
               (map (\<lambda>(g, m). rowOr (messageRow e jsonDir columns tmpl m))
                  (enumerate 0 (take n (bd_Messages data)))))"
          using loop cs(2)
        proof (rule stage_loop [where F = "\<lambda>g m. rowOr (messageRow e jsonDir columns tmpl m)"])
          fix i "end" chunk s b s1
          assume "messagesChunk e jsonDir columns tmpl i end chunk s = (b, s1)"
          from simpleChunk_step [OF this [unfolded messagesChunk_def]]
          show "(insertsInto ?t (trace s1) = insertsInto ?t (trace s) @
                   [(columns, map (\<lambda>(j, m). rowOr (messageRow e jsonDir columns tmpl m))
                                (enumerate 0 chunk))]
                 \<and> (\<forall>m\<in>set chunk. \<exists>row. messageRow e jsonDir columns tmpl m = Inr row))
              \<or> (b \<noteq> None \<and> insertsInto ?t (trace s1) = insertsInto ?t (trace s))"
            by (auto simp: in_set_conv_nth)
        qed (use pre ext in auto)
        then show ?thesis using g1 g2 tm co cs by (auto simp: enumerate_const)
      qed
    qed
  qed
qed

lemma wrap64_idem: "wrap64 (wrap64 n) = wrap64 n"
  by (rule wrap64_id) (rule wrap64_int64)

lemma linkOverrides_index:
  "chatItemMessageOverrides e nextRowID i j m = chatItemMessageOverrides e nextRowID (i + j) 0 m"
proof -
  have "wrap64 (wrap64 (nextRowID + i) + j) = wrap64 (wrap64 (nextRowID + (i + j)) + 0)"
    by (simp add: wrap64_add_left wrap64_idem add.assoc)
  then show ?thesis by (simp add: chatItemMessageOverrides_def)
qed

lemma deliveryOverrides_index:
  "msgDeliveryOverrides e maxAgentMsgID i j m = msgDeliveryOverrides e maxAgentMsgID (i + j) 0 m"
proof -
  have "wrap64 (wrap64 (wrap64 (maxAgentMsgID + 1) + i) + j)
          = wrap64 (wrap64 (wrap64 (maxAgentMsgID + 1) + (i + j)) + 0)"
    by (simp add: wrap64_add_left wrap64_idem add.assoc)
  then show ?thesis by (simp add: msgDeliveryOverrides_def)
qed

lemma bulkInsertChatItemMessages_inserts:
  assumes "bulkInsertChatItemMessages e data w = Some (r, w')"
  shows "(r \<noteq> None \<and> insertsInto ''chat_item_messages'' (added w w') = [])
       \<or> (\<exists>tmpl w1 columns w2 nextRowID w3 n.
            getTemplateRow e ''chat_item_messages'' ''rowid'' w = (Inr tmpl, w1)
          \<and> getTableColumns e ''chat_item_messages'' w1 = (Inr columns, w2)
          \<and> queryCoalesceMax e ''chat_item_messages'' ''rowid'' 1 w2 = (Inr nextRowID, w3)
          \<and> columns \<noteq> []
          \<and> n \<le> length (bd_Messages data) \<and> (r = None \<longrightarrow> n = length (bd_Messages data))
          \<and> insertsInto ''chat_item_messages'' (added w w') = map (Pair columns)
               (chunksOf (rowsPerStatement (length columns))
                  (map (\<lambda>(g, m). buildRowValues columns
                          (chatItemMessageOverrides e nextRowID (int g) 0 m) tmpl)
                     (enumerate 0 (take n (bd_Messages data))))))"
proof -
  let ?t = "''chat_item_messages''"
  obtain r1 w1 where g1: "getTemplateRow e ?t ''rowid'' w = (r1, w1)"
    by (cases "getTemplateRow e ?t ''rowid'' w") auto
  obtain r2 w2 where g2: "getTableColumns e ?t w1 = (r2, w2)"
    by (cases "getTableColumns e ?t w1") auto
  obtain r3 w3 where g3: "queryCoalesceMax e ?t ''rowid'' 1 w2 = (r3, w3)"
    by (cases "queryCoalesceMax e ?t ''rowid'' 1 w2") auto
  from getTemplateRow_world [OF g1] obtain p1 where
    p1: "trace w1 = trace w @ p1" "list_all (allowed {} {}) p1" by auto
  from getTableColumns_world [OF g2] have p2: "trace w2 = trace w1 @ [TableInfo ?t]" by simp
  from queryCoalesceMax_world [OF g3] have
    p3: "trace w3 = trace w2 @ [SelectCoalesceMax ?t ''rowid'' 1]" by simp
  have q1: "insertsInto ?t p1 = []" using p1(2) by (rule insertsInto_allowed) simp
  have pre: "trace w3 = trace w @ (p1 @ [TableInfo ?t, SelectCoalesceMax ?t ''rowid'' 1])"
    "insertsInto ?t (p1 @ [TableInfo ?t, SelectCoalesceMax ?t ''rowid'' 1]) = []"
    using p1 p2 p3 q1 by (simp_all add: insertsInto_append)
  have quiet: "w' = w1 \<or> w' = w2 \<or> w' = w3 \<Longrightarrow> insertsInto ?t (added w w') = []"
    using p1 p2 p3 q1 by (auto simp: added_def insertsInto_append)
  show ?thesis
  proof (cases r1)
    case (Inl err)
    with assms g1 have "w' = w1" "r \<noteq> None" by (auto simp: bulkInsertChatItemMessages_def)
    with quiet show ?thesis by simp
  next
    case tm: (Inr tmpl)
    show ?thesis
    proof (cases r2)
      case (Inl err)
      with assms g1 g2 tm have "w' = w2" "r \<noteq> None"
        by (auto simp: bulkInsertChatItemMessages_def)
      with quiet show ?thesis by simp
    next
      case co: (Inr columns)
      show ?thesis
      proof (cases r3)
        case (Inl err)
        with assms g1 g2 g3 tm co have "w' = w3" "r \<noteq> None"
          by (auto simp: bulkInsertChatItemMessages_def)
        with quiet show ?thesis by simp
      next
        case ky: (Inr nextRowID)
        show ?thesis
        proof (cases "calculateChunkSize (int (length columns)) 900")
          case (Inl err)
          with assms g1 g2 g3 tm co ky have "w' = w3" "r \<noteq> None"
            by (auto simp: bulkInsertChatItemMessages_def)
          with quiet show ?thesis by simp
        next
          case (Inr cs)
          from calculateChunkSize_rows [OF Inr] have
            cs: "nat cs = rowsPerStatement (length columns)" "1 \<le> cs" "columns \<noteq> []" by auto
          from assms g1 g2 g3 tm co ky Inr have
            loop: "chunkLoop (chatItemMessagesChunk e columns tmpl nextRowID) (bd_Messages data)
                     cs 0 w3 = Some (r, w')"
            by (simp add: bulkInsertChatItemMessages_def)
          have ext: "\<exists>tr. trace w' = trace w3 @ tr"
            using chunkLoop_extends [OF loop cs(2) chatItemMessagesChunk_extends]
            by (rule extends_ex)
          let ?F = "\<lambda>g m. buildRowValues columns
                            (chatItemMessageOverrides e nextRowID g 0 m) tmpl"
          have "\<exists>n. n \<le> length (bd_Messages data)
             \<and> (r = None \<longrightarrow> n = length (bd_Messages data))
             \<and> (\<forall>m\<in>set (take n (bd_Messages data)). True)
             \<and> insertsInto ?t (added w w') = map (Pair columns) (chunksOf (nat cs)
                 (map (\<lambda>(g, m). ?F (int g) m) (enumerate 0 (take n (bd_Messages data)))))"
            using loop cs(2)
          proof (rule stage_loop [where F = ?F])
            fix i "end" chunk s b s1
            assume "chatItemMessagesChunk e columns tmpl nextRowID i end chunk s = (b, s1)"
            from simpleChunk_step [OF this [unfolded chatItemMessagesChunk_def]]
            show "(insertsInto ?t (trace s1) = insertsInto ?t (trace s) @
                     [(columns, map (\<lambda>(j, m). ?F (i + int j) m) (enumerate 0 chunk))]
                   \<and> (\<forall>m\<in>set chunk. True))
                \<or> (b \<noteq> None \<and> insertsInto ?t (trace s1) = insertsInto ?t (trace s))"
              by (auto simp: rowOr_def linkOverrides_index [of e nextRowID i])
          qed (use pre ext in auto)
          then show ?thesis using g1 g2 g3 tm co ky cs by auto
        qed
      qed
    qed
  qed
qed

lemma bulkInsertMsgDeliveries_inserts:
  assumes "bulkInsertMsgDeliveries e data w = Some (r, w')"
  shows "(r \<noteq> None \<and> insertsInto ''msg_deliveries'' (added w w') = [])
       \<or> (\<exists>tmpl w1 columns w2 maxAgentMsgID w3 n.
            getTemplateRow e ''msg_deliveries'' ''msg_delivery_id'' w = (Inr tmpl, w1)
          \<and> getTableColumns e ''msg_deliveries'' w1 = (Inr columns, w2)
          \<and> queryCoalesceMax e ''msg_deliveries'' ''agent_msg_id'' 0 w2 = (Inr maxAgentMsgID, w3)
          \<and> columns \<noteq> []
          \<and> n \<le> length (bd_Messages data) \<and> (r = None \<longrightarrow> n = length (bd_Messages data))
          \<and> insertsInto ''msg_deliveries'' (added w w') = map (Pair columns)
               (chunksOf (rowsPerStatement (length columns))
                  (map (\<lambda>(g, m). buildRowValues columns
                          (msgDeliveryOverrides e maxAgentMsgID (int g) 0 m) tmpl)
                     (enumerate 0 (take n (bd_Messages data))))))"
proof -
  let ?t = "''msg_deliveries''"
  obtain r1 w1 where g1: "getTemplateRow e ?t ''msg_delivery_id'' w = (r1, w1)"
    by (cases "getTemplateRow e ?t ''msg_delivery_id'' w") auto
  obtain r2 w2 where g2: "getTableColumns e ?t w1 = (r2, w2)"
    by (cases "getTableColumns e ?t w1") auto
  obtain r3 w3 where g3: "queryCoalesceMax e ?t ''agent_msg_id'' 0 w2 = (r3, w3)"
    by (cases "queryCoalesceMax e ?t ''agent_msg_id'' 0 w2") auto
  from getTemplateRow_world [OF g1] obtain p1 where
    p1: "trace w1 = trace w @ p1" "list_all (allowed {} {}) p1" by auto
  from getTableColumns_world [OF g2] have p2: "trace w2 = trace w1 @ [TableInfo ?t]" by simp
  from queryCoalesceMax_world [OF g3] have
    p3: "trace w3 = trace w2 @ [SelectCoalesceMax ?t ''agent_msg_id'' 0]" by simp
  have q1: "insertsInto ?t p1 = []" using p1(2) by (rule insertsInto_allowed) simp
  have pre: "trace w3 = trace w @ (p1 @ [TableInfo ?t, SelectCoalesceMax ?t ''agent_msg_id'' 0])"
    "insertsInto ?t (p1 @ [TableInfo ?t, SelectCoalesceMax ?t ''agent_msg_id'' 0]) = []"
    using p1 p2 p3 q1 by (simp_all add: insertsInto_append)
  have quiet: "w' = w1 \<or> w' = w2 \<or> w' = w3 \<Longrightarrow> insertsInto ?t (added w w') = []"
    using p1 p2 p3 q1 by (auto simp: added_def insertsInto_append)
  show ?thesis
  proof (cases r1)
    case (Inl err)
    with assms g1 have "w' = w1" "r \<noteq> None" by (auto simp: bulkInsertMsgDeliveries_def)
    with quiet show ?thesis by simp
  next
    case tm: (Inr tmpl)
    show ?thesis
    proof (cases r2)
      case (Inl err)
      with assms g1 g2 tm have "w' = w2" "r \<noteq> None"
        by (auto simp: bulkInsertMsgDeliveries_def)
      with quiet show ?thesis by simp
    next
      case co: (Inr columns)
      show ?thesis
      proof (cases r3)
        case (Inl err)
        with assms g1 g2 g3 tm co have "w' = w3" "r \<noteq> None"
          by (auto simp: bulkInsertMsgDeliveries_def)
        with quiet show ?thesis by simp
      next
        case ky: (Inr maxAgentMsgID)
        show ?thesis
        proof (cases "calculateChunkSize (int (length columns)) 900")
          case (Inl err)
          with assms g1 g2 g3 tm co ky have "w' = w3" "r \<noteq> None"
            by (auto simp: bulkInsertMsgDeliveries_def)
          with quiet show ?thesis by simp
        next
          case (Inr cs)
          from calculateChunkSize_rows [OF Inr] have
            cs: "nat cs = rowsPerStatement (length columns)" "1 \<le> cs" "columns \<noteq> []" by auto
          from assms g1 g2 g3 tm co ky Inr have
            loop: "chunkLoop (msgDeliveriesChunk e columns tmpl maxAgentMsgID) (bd_Messages data)
                     cs 0 w3 = Some (r, w')"
            by (simp add: bulkInsertMsgDeliveries_def)
          have ext: "\<exists>tr. trace w' = trace w3 @ tr"
            using chunkLoop_extends [OF loop cs(2) msgDeliveriesChunk_extends]
            by (rule extends_ex)
          let ?F = "\<lambda>g m. buildRowValues columns
                            (msgDeliveryOverrides e maxAgentMsgID g 0 m) tmpl"
          have "\<exists>n. n \<le> length (bd_Messages data)
             \<and> (r = None \<longrightarrow> n = length (bd_Messages data))
             \<and> (\<forall>m\<in>set (take n (bd_Messages data)). True)
             \<and> insertsInto ?t (added w w') = map (Pair columns) (chunksOf (nat cs)
                 (map (\<lambda>(g, m). ?F (int g) m) (enumerate 0 (take n (bd_Messages data)))))"
            using loop cs(2)
          proof (rule stage_loop [where F = ?F])
            fix i "end" chunk s b s1
            assume "msgDeliveriesChunk e columns tmpl maxAgentMsgID i end chunk s = (b, s1)"
            from simpleChunk_step [OF this [unfolded msgDeliveriesChunk_def]]
            show "(insertsInto ?t (trace s1) = insertsInto ?t (trace s) @
                     [(columns, map (\<lambda>(j, m). ?F (i + int j) m) (enumerate 0 chunk))]
                   \<and> (\<forall>m\<in>set chunk. True))
                \<or> (b \<noteq> None \<and> insertsInto ?t (trace s1) = insertsInto ?t (trace s))"
              by (auto simp: rowOr_def deliveryOverrides_index [of e maxAgentMsgID i])
          qed (use pre ext in auto)
          then show ?thesis using g1 g2 g3 tm co ky cs by auto
        qed
      qed
    qed
  qed
qed

lemma chatItemsChunkRows_rowOr:
  assumes "chatItemsChunkRows e jsonDir contactID simplexFilesDir columns templateRow chunk w
             = (Inr rows, w')"
  shows "rows = map (\<lambda>m. rowOr (chatItemRow e jsonDir contactID columns templateRow m)) chunk
       \<and> (\<forall>m\<in>set chunk. \<exists>row. chatItemRow e jsonDir contactID columns templateRow m = Inr row)"
  using assms
proof (induction chunk arbitrary: w rows)
  case Nil
  then show ?case by simp
next
  case (Cons msgData rest)
  from Cons.prems obtain row w1 rs where
    r: "chatItemRow e jsonDir contactID columns templateRow msgData = Inr row"
       "chatItemsChunkRows e jsonDir contactID simplexFilesDir columns templateRow rest w1
          = (Inr rs, w')"
       "rows = row # rs"
    by (auto simp: Let_def split: sum.splits prod.splits option.splits list.splits if_splits)
  with Cons.IH [OF r(2)] show ?case by (simp add: rowOr_def)
qed

lemma chatItemsChunk_step:
  assumes "chatItemsChunk e jsonDir contactID simplexFilesDir columns tmpl i end chunk w = (b, w')"
  shows "(insertsInto ''chat_items'' (trace w') = insertsInto ''chat_items'' (trace w) @
            [(columns, map (\<lambda>m. rowOr (chatItemRow e jsonDir contactID columns tmpl m)) chunk)]
          \<and> (\<forall>m\<in>set chunk. \<exists>row. chatItemRow e jsonDir contactID columns tmpl m = Inr row))
       \<or> (b \<noteq> None \<and> insertsInto ''chat_items'' (trace w') = insertsInto ''chat_items'' (trace w))"
proof -
  obtain rr w1 where c: "chatItemsChunkRows e jsonDir contactID simplexFilesDir columns
      tmpl chunk w = (rr, w1)"
    by (cases "chatItemsChunkRows e jsonDir contactID simplexFilesDir columns tmpl chunk w") auto
  from chatItemsChunkRows_extends [OF c] obtain tr where
    tr: "trace w1 = trace w @ tr" "list_all (allowed Kfiles Afiles) tr"
    by (auto simp: extends_def)
  have q: "insertsInto ''chat_items'' tr = []"
    using tr(2) by (rule insertsInto_allowed) (simp add: Afiles_def)
  show ?thesis
  proof (cases rr)
    case (Inl err)
    with assms c have "w' = w1" "b \<noteq> None" by (auto simp: chatItemsChunk_def)
    with tr q show ?thesis by (simp add: insertsInto_append)
  next
    case (Inr rows)
    from assms c Inr obtain r1 where
      x: "execInsert e ''chat_items'' columns rows w1 = (r1, w')"
      by (auto simp: chatItemsChunk_def split: prod.splits option.splits)
    from execInsert_trace [OF x] chatItemsChunkRows_rowOr [OF c [unfolded Inr]] tr q
    show ?thesis by (simp add: insertsInto_append)
  qed
qed

lemma bulkInsertChatItems_inserts:
  assumes "bulkInsertChatItems e data jsonDir contactID simplexFilesDir w = Some (r, w')"
  shows "(r \<noteq> None \<and> insertsInto ''chat_items'' (added w w') = [])
       \<or> (\<exists>tmpl w1 columns w2 n.
            getTemplateRow e ''chat_items'' ''chat_item_id'' w = (Inr tmpl, w1)
          \<and> getTableColumns e ''chat_items'' w1 = (Inr columns, w2)
          \<and> columns \<noteq> []
          \<and> n \<le> length (bd_Messages data) \<and> (r = None \<longrightarrow> n = length (bd_Messages data))
          \<and> (\<forall>m\<in>set (take n (bd_Messages data)).
                \<exists>row. chatItemRow e jsonDir contactID columns tmpl m = Inr row)
          \<and> insertsInto ''chat_items'' (added w w') = map (Pair columns)
               (chunksOf (rowsPerStatement (length columns))
                  (map (\<lambda>m. rowOr (chatItemRow e jsonDir contactID columns tmpl m))
                     (take n (bd_Messages data)))))"
proof -
  let ?t = "''chat_items''"
  obtain r1 w1 where g1: "getTemplateRow e ?t ''chat_item_id'' w = (r1, w1)"
    by (cases "getTemplateRow e ?t ''chat_item_id'' w") auto
  obtain r2 w2 where g2: "getTableColumns e ?t w1 = (r2, w2)"
    by (cases "getTableColumns e ?t w1") auto
  from getTemplateRow_world [OF g1] obtain p1 where
    p1: "trace w1 = trace w @ p1" "list_all (allowed {} {}) p1" by auto
  from getTableColumns_world [OF g2] have p2: "trace w2 = trace w1 @ [TableInfo ?t]" by simp
  have q1: "insertsInto ?t p1 = []" using p1(2) by (rule insertsInto_allowed) simp
  have pre: "trace w2 = trace w @ (p1 @ [TableInfo ?t])"
    "insertsInto ?t (p1 @ [TableInfo ?t]) = []"
    using p1 p2 q1 by (simp_all add: insertsInto_append)
  have quiet: "w' = w1 \<or> w' = w2 \<Longrightarrow> insertsInto ?t (added w w') = []"
    using p1 p2 q1 by (auto simp: added_def insertsInto_append)
  show ?thesis
  proof (cases r1)
    case (Inl err)
    with assms g1 have "w' = w1" "r \<noteq> None" by (auto simp: bulkInsertChatItems_def)
    with quiet show ?thesis by simp
  next
    case tm: (Inr tmpl)
    show ?thesis
    proof (cases r2)
      case (Inl err)
      with assms g1 g2 tm have "w' = w2" "r \<noteq> None" by (auto simp: bulkInsertChatItems_def)
      with quiet show ?thesis by simp
    next
      case co: (Inr columns)
      show ?thesis
      proof (cases "calculateChunkSize (int (length columns)) 900")
        case (Inl err)
        with assms g1 g2 tm co have "w' = w2" "r \<noteq> None"
          by (auto simp: bulkInsertChatItems_def)
        with quiet show ?thesis by simp
      next
        case (Inr cs)
        from calculateChunkSize_rows [OF Inr] have
          cs: "nat cs = rowsPerStatement (length columns)" "1 \<le> cs" "columns \<noteq> []" by auto
        from assms g1 g2 tm co Inr have
          loop: "chunkLoop (chatItemsChunk e jsonDir contactID simplexFilesDir columns tmpl)
                   (bd_Messages data) cs 0 w2 = Some (r, w')"
          by (simp add: bulkInsertChatItems_def)
        have ext: "\<exists>tr. trace w' = trace w2 @ tr"
          using chunkLoop_extends [OF loop cs(2) chatItemsChunk_extends] by (rule extends_ex)
        have "\<exists>n. n \<le> length (bd_Messages data) \<and> (r = None \<longrightarrow> n = length (bd_Messages data))
           \<and> (\<forall>m\<in>set (take n (bd_Messages data)).
                 \<exists>row. chatItemRow e jsonDir contactID columns tmpl m = Inr row)
           \<and> insertsInto ?t (added w w') = map (Pair columns) (chunksOf (nat cs)
               (map (\<lambda>(g, m). rowOr (chatItemRow e jsonDir contactID columns tmpl m))
                  (enumerate 0 (take n (bd_Messages data)))))"
          using loop cs(2)
        proof (rule stage_loop
                 [where F = "\<lambda>g m. rowOr (chatItemRow e jsonDir contactID columns tmpl m)"])
          fix i "end" chunk s b s1
          assume "chatItemsChunk e jsonDir contactID simplexFilesDir columns tmpl i end chunk s
                    = (b, s1)"
          from chatItemsChunk_step [OF this]
          show "(insertsInto ?t (trace s1) = insertsInto ?t (trace s) @
                   [(columns, map (\<lambda>(j, m). rowOr (chatItemRow e jsonDir contactID columns tmpl m))
                                (enumerate 0 chunk))]
                 \<and> (\<forall>m\<in>set chunk. \<exists>row. chatItemRow e jsonDir contactID columns tmpl m = Inr row))
              \<or> (b \<noteq> None \<and> insertsInto ?t (trace s1) = insertsInto ?t (trace s))"
            by (simp add: enumerate_const)
        qed (use pre ext in auto)
        then show ?thesis using g1 g2 tm co cs by (auto simp: enumerate_const)
      qed
    qed
  qed
qed

lemma preserved_refl: "preserved A w w"
  by (simp add: preserved_def)

lemma preserved_eq: "db w' = db w \<Longrightarrow> preserved A w w'"
  by (simp add: preserved_def)

lemma preserved_trans: "preserved A a b \<Longrightarrow> preserved A b c \<Longrightarrow> preserved A a c"
  by (simp add: preserved_def)

lemma preserved_mono: "preserved A w w' \<Longrightarrow> A \<subseteq> B \<Longrightarrow> preserved B w w'"
  by (auto simp: preserved_def)

lemma appendRow_cols: "cols (fold (appendRow cs) rows tb) = cols tb"
  by (induction rows arbitrary: tb) (simp_all add: appendRow_def)

lemma execInsert_preserved:
  assumes "execInsert e t cs rows w = (r, w')"
  shows "preserved {t} w w'"
  using assms
  by (auto simp: execInsert_def preserved_def appendRow_cols
      split: prod.splits bool.splits option.splits if_splits dest!: send_world)

lemma getTableColumns_db: "getTableColumns e t w = (r, w') \<Longrightarrow> db w' = db w"
  by (auto dest!: getTableColumns_world)

lemma queryCoalesceMax_db: "queryCoalesceMax e t c k w = (r, w') \<Longrightarrow> db w' = db w"
  by (auto dest!: queryCoalesceMax_world)

lemma timeNow_db: "timeNow e w = (t, w') \<Longrightarrow> db w' = db w"
  by (auto dest!: timeNow_world)

lemma insertSndFile_preserved:
  assumes "insertSndFile e fileID w = (r, w')"
  shows "preserved {''snd_files''} w w'"
proof -
  have "db w' = db w \<or> (\<exists>w5 cs rows. db w5 = db w \<and> execInsert e ''snd_files'' cs rows w5 = (r, w'))"
    using assms unfolding insertSndFile_def Let_def
    by (auto split: prod.splits sum.splits option.splits if_splits
        dest!: getTemplateRow_db getTableColumns_db queryCoalesceMax_db timeNow_db)
  then show ?thesis
    using execInsert_preserved preserved_eq preserved_trans by blast
qed

lemma insertRcvFile_preserved:
  assumes "insertRcvFile e fileID w = (r, w')"
  shows "preserved {''rcv_files''} w w'"
proof -
  have "db w' = db w \<or> (\<exists>w5 cs rows. db w5 = db w \<and> execInsert e ''rcv_files'' cs rows w5 = (r, w'))"
    using assms unfolding insertRcvFile_def Let_def
    by (auto split: prod.splits sum.splits option.splits if_splits
        dest!: getTemplateRow_db getTableColumns_db timeNow_db)
  then show ?thesis
    using execInsert_preserved preserved_eq preserved_trans by blast
qed

lemma insertFileAttachment_preserved:
  assumes "insertFileAttachment e attachment chatItemID isSent jsonDir messageType contactID
             simplexFilesDir w = (r, w')"
  shows "preserved Afiles w w'"
proof -
  obtain r1 w1 where g1: "getTemplateRow e ''files'' ''file_id'' w = (r1, w1)"
    by (cases "getTemplateRow e ''files'' ''file_id'' w") auto
  obtain r2 w2 where g2: "queryCoalesceMax e ''files'' ''file_id'' 1 w1 = (r2, w2)"
    by (cases "queryCoalesceMax e ''files'' ''file_id'' 1 w1") auto
  obtain r3 w3 where g3: "getTableColumns e ''files'' w2 = (r3, w3)"
    by (cases "getTableColumns e ''files'' w2") auto
  obtain t1 w4 where n1: "timeNow e w3 = (t1, w4)" by (cases "timeNow e w3") auto
  obtain t2 w5 where n2: "timeNow e w4 = (t2, w5)" by (cases "timeNow e w4") auto
  have d: "db w1 = db w" "db w2 = db w" "db w3 = db w" "db w5 = db w"
    using getTemplateRow_db [OF g1] queryCoalesceMax_db [OF g2] getTableColumns_db [OF g3]
      timeNow_db [OF n1] timeNow_db [OF n2] by simp_all
  from assms(1) g1 g2 g3 n1 n2 consider "w' = w" | "w' = w1" | "w' = w2" | "w' = w3" | "w' = w5"
    | tmpl columns name r6 w6 fid where
        "execInsert e ''files'' columns
           [buildRowValues columns
              (fileOverrides fid contactID name attachment chatItemID
                 messageType isSent (timeFormat e sqlTime t1) (timeFormat e sqlTime t2))
              tmpl] w5 = (r6, w6)"
        "w' = w6 \<or> (\<exists>r7. (if isSent then insertSndFile e fid w6
                             else insertRcvFile e fid w6) = (r7, w'))"
    unfolding insertFileAttachment_def Let_def
    by (auto split: sum.splits option.splits prod.splits if_splits)
  then show ?thesis
  proof cases
    case (6 tmpl columns name r6 w6 fid)
    have "preserved Afiles w5 w6"
      using execInsert_preserved [OF 6(1)] by (rule preserved_mono) (simp add: Afiles_def)
    with preserved_eq [OF d(4)] have a: "preserved Afiles w w6" by (rule preserved_trans)
    from 6(2) show ?thesis
    proof
      assume "w' = w6" with a show ?thesis by simp
    next
      assume "\<exists>r7. (if isSent then insertSndFile e fid w6
                             else insertRcvFile e fid w6) = (r7, w')"
      then obtain r7 where t: "(if isSent then insertSndFile e fid w6
                             else insertRcvFile e fid w6) = (r7, w')" by blast
      have "preserved Afiles w6 w'"
      proof (cases isSent)
        case True
        with t have "insertSndFile e fid w6 = (r7, w')" by simp
        from insertSndFile_preserved [OF this] show ?thesis
          by (rule preserved_mono) (simp add: Afiles_def)
      next
        case False
        with t have "insertRcvFile e fid w6 = (r7, w')" by simp
        from insertRcvFile_preserved [OF this] show ?thesis
          by (rule preserved_mono) (simp add: Afiles_def)
      qed
      with a show ?thesis by (rule preserved_trans)
    qed
  qed (use d in \<open>auto intro: preserved_eq\<close>)
qed

lemma chatItemsChunkRows_preserved:
  assumes "chatItemsChunkRows e jsonDir contactID simplexFilesDir columns templateRow chunk w = (r, w')"
  shows "preserved Afiles w w'"
  using assms
proof (induction chunk arbitrary: w r w')
  case Nil
  then show ?case by (simp add: preserved_refl)
next
  case (Cons msgData rest)
  show ?case
  proof (cases "um_Attachments (mi_Message msgData)")
    case Nil
    with Cons.prems Cons.IH show ?thesis
      by (auto simp: Let_def preserved_refl split: sum.splits prod.splits)
  next
    case (Cons attachment atts)
    obtain fr w1 where f: "insertFileAttachment e attachment (mi_ChatItemID msgData)
        (um_IsSent (mi_Message msgData)) jsonDir (um_MessageType (mi_Message msgData))
        contactID simplexFilesDir w = (fr, w1)"
      by (cases "insertFileAttachment e attachment (mi_ChatItemID msgData)
        (um_IsSent (mi_Message msgData)) jsonDir (um_MessageType (mi_Message msgData))
        contactID simplexFilesDir w") auto
    have e1: "preserved Afiles w w1" using insertFileAttachment_preserved [OF f] .
    from Cons.prems Cons f have "w' = w1 \<or> (\<exists>r2. chatItemsChunkRows e jsonDir contactID
        simplexFilesDir columns templateRow rest w1 = (r2, w'))"
      by (auto simp: Let_def split: sum.splits prod.splits if_splits)
    then show ?thesis
      using e1 Cons.IH preserved_trans by blast
  qed
qed

lemma simpleChunk_preserved:
  assumes "(case chunkRows f 0 chunk of
              Inl err \<Rightarrow> (Some err, w)
            | Inr rows \<Rightarrow>
                (case execInsert e t columns rows w of
                   (Some err, w') \<Rightarrow> (Some (wrapErr msg err), w')
                 | (None, w') \<Rightarrow> (None, w'))) = (b, w1)"
  shows "preserved {t} w w1"
proof (cases "chunkRows f 0 chunk")
  case (Inl err)
  with assms show ?thesis by (auto simp: preserved_refl)
next
  case (Inr rows)
  from assms Inr obtain r1 where x: "execInsert e t columns rows w = (r1, w1)"
    by (auto split: prod.splits option.splits)
  then show ?thesis by (rule execInsert_preserved)
qed

lemma chatItemsChunk_preserved:
  assumes "chatItemsChunk e jsonDir contactID simplexFilesDir columns tmpl i end chunk w = (b, w')"
  shows "preserved (insert ''chat_items'' Afiles) w w'"
proof -
  obtain rr w1 where c: "chatItemsChunkRows e jsonDir contactID simplexFilesDir columns
      tmpl chunk w = (rr, w1)"
    by (cases "chatItemsChunkRows e jsonDir contactID simplexFilesDir columns tmpl chunk w") auto
  have a: "preserved (insert ''chat_items'' Afiles) w w1"
    using chatItemsChunkRows_preserved [OF c] by (rule preserved_mono) auto
  from assms c have "w' = w1 \<or> (\<exists>rows r1. execInsert e ''chat_items'' columns rows w1 = (r1, w'))"
    by (auto simp: chatItemsChunk_def split: sum.splits prod.splits option.splits)
  then have "preserved (insert ''chat_items'' Afiles) w1 w'"
  proof
    assume "w' = w1" then show ?thesis by (simp add: preserved_refl)
  next
    assume "\<exists>rows r1. execInsert e ''chat_items'' columns rows w1 = (r1, w')"
    then obtain rows r1 where "execInsert e ''chat_items'' columns rows w1 = (r1, w')" by blast
    from execInsert_preserved [OF this] show ?thesis by (rule preserved_mono) simp
  qed
  with a show ?thesis by (rule preserved_trans)
qed

lemma chunkLoop_preserved:
  assumes "chunkLoop body xs cs 0 w = Some (r, w')" "1 \<le> cs"
    and "\<And>i end chunk s r s'. body i end chunk s = (r, s') \<Longrightarrow> preserved A s s'"
  shows "preserved A w w'"
  using assms(1,2) _ assms(3)
  by (rule chunkLoop_rule [where R = "preserved A"]) (auto intro: preserved_refl preserved_trans)

lemma bulkInsertMessages_preserved:
  assumes "bulkInsertMessages e data jsonDir contactID w = Some (r, w')"
  shows "preserved {''messages''} w w'"
proof -
  have "db w' = db w \<or> (\<exists>w2 columns tmpl cs. db w2 = db w \<and> 1 \<le> cs
          \<and> chunkLoop (messagesChunk e jsonDir columns tmpl) (bd_Messages data) cs 0 w2
               = Some (r, w'))"
    using assms unfolding bulkInsertMessages_def
    by (auto split: prod.splits sum.splits dest!: getTemplateRow_db getTableColumns_db)
       (metis calculateChunkSize_Inr)
  then consider "db w' = db w"
    | w2 columns tmpl cs where "db w2 = db w" "1 \<le> cs"
        "chunkLoop (messagesChunk e jsonDir columns tmpl) (bd_Messages data) cs 0 w2 = Some (r, w')"
    by blast
  then show ?thesis
  proof cases
    case 1
    then show ?thesis by (rule preserved_eq)
  next
    case 2
    have "preserved {''messages''} w2 w'"
      using 2(3) 2(2)
      by (rule chunkLoop_preserved) (auto simp: messagesChunk_def dest!: simpleChunk_preserved)
    with preserved_eq [OF 2(1)] show ?thesis by (rule preserved_trans)
  qed
qed

lemma bulkInsertChatItems_preserved:
  assumes "bulkInsertChatItems e data jsonDir contactID simplexFilesDir w = Some (r, w')"
  shows "preserved (insert ''chat_items'' Afiles) w w'"
proof -
  have "db w' = db w \<or> (\<exists>w2 columns tmpl cs. db w2 = db w \<and> 1 \<le> cs
          \<and> chunkLoop (chatItemsChunk e jsonDir contactID simplexFilesDir columns tmpl)
               (bd_Messages data) cs 0 w2 = Some (r, w'))"
    using assms unfolding bulkInsertChatItems_def
    by (auto split: prod.splits sum.splits dest!: getTemplateRow_db getTableColumns_db)
       (metis calculateChunkSize_Inr)
  then consider "db w' = db w"
    | w2 columns tmpl cs where "db w2 = db w" "1 \<le> cs"
        "chunkLoop (chatItemsChunk e jsonDir contactID simplexFilesDir columns tmpl)
               (bd_Messages data) cs 0 w2 = Some (r, w')"
    by blast
  then show ?thesis
  proof cases
    case 1
    then show ?thesis by (rule preserved_eq)
  next
    case 2
    have "preserved (insert ''chat_items'' Afiles) w2 w'"
      using 2(3) 2(2) by (rule chunkLoop_preserved) (rule chatItemsChunk_preserved)
    with preserved_eq [OF 2(1)] show ?thesis by (rule preserved_trans)
  qed
qed

lemma bulkInsertChatItemMessages_preserved:
  assumes "bulkInsertChatItemMessages e data w = Some (r, w')"
  shows "preserved {''chat_item_messages''} w w'"
proof -
  have "db w' = db w \<or> (\<exists>w3 columns tmpl n cs. db w3 = db w \<and> 1 \<le> cs
          \<and> chunkLoop (chatItemMessagesChunk e columns tmpl n) (bd_Messages data) cs 0 w3
               = Some (r, w'))"
    using assms unfolding bulkInsertChatItemMessages_def
    by (auto split: prod.splits sum.splits
        dest!: getTemplateRow_db getTableColumns_db queryCoalesceMax_db)
       (metis calculateChunkSize_Inr)
  then consider "db w' = db w"
    | w3 columns tmpl n cs where "db w3 = db w" "1 \<le> cs"
        "chunkLoop (chatItemMessagesChunk e columns tmpl n) (bd_Messages data) cs 0 w3
           = Some (r, w')"
    by blast
  then show ?thesis
  proof cases
    case 1
    then show ?thesis by (rule preserved_eq)
  next
    case 2
    have "preserved {''chat_item_messages''} w3 w'"
      using 2(3) 2(2)
      by (rule chunkLoop_preserved)
         (auto simp: chatItemMessagesChunk_def dest!: simpleChunk_preserved)
    with preserved_eq [OF 2(1)] show ?thesis by (rule preserved_trans)
  qed
qed

lemma bulkInsertMsgDeliveries_preserved:
  assumes "bulkInsertMsgDeliveries e data w = Some (r, w')"
  shows "preserved {''msg_deliveries''} w w'"
proof -
  have "db w' = db w \<or> (\<exists>w3 columns tmpl n cs. db w3 = db w \<and> 1 \<le> cs
          \<and> chunkLoop (msgDeliveriesChunk e columns tmpl n) (bd_Messages data) cs 0 w3
               = Some (r, w'))"
    using assms unfolding bulkInsertMsgDeliveries_def
    by (auto split: prod.splits sum.splits
        dest!: getTemplateRow_db getTableColumns_db queryCoalesceMax_db)
       (metis calculateChunkSize_Inr)
  then consider "db w' = db w"
    | w3 columns tmpl n cs where "db w3 = db w" "1 \<le> cs"
        "chunkLoop (msgDeliveriesChunk e columns tmpl n) (bd_Messages data) cs 0 w3
           = Some (r, w')"
    by blast
  then show ?thesis
  proof cases
    case 1
    then show ?thesis by (rule preserved_eq)
  next
    case 2
    have "preserved {''msg_deliveries''} w3 w'"
      using 2(3) 2(2)
      by (rule chunkLoop_preserved)
         (auto simp: msgDeliveriesChunk_def dest!: simpleChunk_preserved)
    with preserved_eq [OF 2(1)] show ?thesis by (rule preserved_trans)
  qed
qed

lemma insertReactions_preserved:
  assumes "insertReactions e contactID msgData reactions n w = ((r, n'), w')"
  shows "preserved {''chat_item_reactions''} w w'"
  using assms
proof (induction reactions arbitrary: n w)
  case Nil
  then show ?case by (simp add: preserved_refl)
next
  case (Cons reaction rest)
  obtain r1 w1 where x: "execInsert e ''chat_item_reactions'' reactionColumns
      [reactionRow e contactID msgData reaction n] w = (r1, w1)"
    by (cases "execInsert e ''chat_item_reactions'' reactionColumns
      [reactionRow e contactID msgData reaction n] w") auto
  have e1: "preserved {''chat_item_reactions''} w w1"
    using execInsert_preserved [OF x] .
  from Cons.prems x have "w' = w1 \<or>
      insertReactions e contactID msgData rest (wrap64 (n + 1)) w1 = ((r, n'), w')"
    by (auto split: option.splits)
  with e1 Cons.IH show ?case using preserved_trans by blast
qed

lemma reactionsOfMessages_preserved:
  assumes "reactionsOfMessages e contactID msgs n w = (r, w')"
  shows "preserved {''chat_item_reactions''} w w'"
  using assms
proof (induction msgs arbitrary: n w)
  case Nil
  then show ?case by (simp add: preserved_refl)
next
  case (Cons msgData rest)
  obtain r1 n1 w1 where x: "insertReactions e contactID msgData
      (um_Reactions (mi_Message msgData)) n w = ((r1, n1), w1)"
    by (cases "insertReactions e contactID msgData (um_Reactions (mi_Message msgData)) n w") auto
  have e1: "preserved {''chat_item_reactions''} w w1"
    using insertReactions_preserved [OF x] .
  from Cons.prems x have "w' = w1 \<or> reactionsOfMessages e contactID rest n1 w1 = (r, w')"
    by (auto split: option.splits)
  with e1 Cons.IH show ?case using preserved_trans by blast
qed

lemma bulkInsertReactions_preserved:
  assumes "bulkInsertReactions e data contactID w = (r, w')"
  shows "preserved {''chat_item_reactions''} w w'"
proof -
  have "db w' = db w \<or> (\<exists>w1 n. db w1 = db w
          \<and> reactionsOfMessages e contactID (bd_Messages data) n w1 = (r, w'))"
    using assms unfolding bulkInsertReactions_def
    by (auto split: prod.splits sum.splits dest!: queryCoalesceMax_db)
  then show ?thesis
    using reactionsOfMessages_preserved preserved_eq preserved_trans by blast
qed

lemma getTemplateRow_ticks: "getTemplateRow e t c w = (r, w') \<Longrightarrow> ticks w' = ticks w"
  by (auto dest!: getTemplateRow_world)

lemma getTableColumns_ticks: "getTableColumns e t w = (r, w') \<Longrightarrow> ticks w' = ticks w"
  by (auto dest!: getTableColumns_world)

lemma queryCoalesceMax_ticks: "queryCoalesceMax e t c k w = (r, w') \<Longrightarrow> ticks w' = ticks w"
  by (auto dest!: queryCoalesceMax_world)

lemma timeNow_value:
  "timeNow e w = (t, w') \<Longrightarrow> t = now e (ticks w) \<and> ticks w' = Suc (ticks w) \<and> trace w' = trace w"
  by (auto simp: timeNow_def)

lemma insertSndFile_trace:
  assumes "insertSndFile e fileID w = (r, w')"
  shows "(r \<noteq> None \<and> (\<exists>pre. trace w' = trace w @ pre \<and> list_all (allowed Kfiles {}) pre))
       \<or> (\<exists>tmpl w1 columns w2 nd w3 pre.
            getTemplateRow e ''snd_files'' ''file_id'' w = (Inr tmpl, w1)
          \<and> getTableColumns e ''snd_files'' w1 = (Inr columns, w2)
          \<and> queryCoalesceMax e ''snd_files'' ''last_inline_msg_delivery_id'' 1 w2 = (Inr nd, w3)
          \<and> list_all (allowed Kfiles {}) pre
          \<and> trace w' = trace w @ pre @
               [InsertRows ''snd_files'' columns
                  [buildRowValues columns
                     (sndFileOverrides fileID nd (timeFormat e sqlTime (now e (ticks w)))
                        (timeFormat e sqlTime (now e (Suc (ticks w))))) tmpl]])"
proof -
  let ?t = "''snd_files''"
  let ?c = "''last_inline_msg_delivery_id''"
  obtain r1 w1 where g1: "getTemplateRow e ?t ''file_id'' w = (r1, w1)"
    by (cases "getTemplateRow e ?t ''file_id'' w") auto
  obtain r2 w2 where g2: "getTableColumns e ?t w1 = (r2, w2)"
    by (cases "getTableColumns e ?t w1") auto
  obtain r3 w3 where g3: "queryCoalesceMax e ?t ?c 1 w2 = (r3, w3)"
    by (cases "queryCoalesceMax e ?t ?c 1 w2") auto
  obtain t1 w4 where n1: "timeNow e w3 = (t1, w4)" by (cases "timeNow e w3") auto
  obtain t2 w5 where n2: "timeNow e w4 = (t2, w5)" by (cases "timeNow e w4") auto
  from getTemplateRow_world [OF g1] obtain p1 where
    p1: "trace w1 = trace w @ p1" "list_all (allowed {} {}) p1" by auto
  from getTableColumns_world [OF g2] have p2: "trace w2 = trace w1 @ [TableInfo ?t]" by simp
  from queryCoalesceMax_world [OF g3] have
    p3: "trace w3 = trace w2 @ [SelectCoalesceMax ?t ?c 1]" by simp
  have tk: "ticks w3 = ticks w"
    using getTemplateRow_ticks [OF g1] getTableColumns_ticks [OF g2]
      queryCoalesceMax_ticks [OF g3] by simp
  from timeNow_value [OF n1] timeNow_value [OF n2] tk have
    tm: "t1 = now e (ticks w)" "t2 = now e (Suc (ticks w))" "trace w5 = trace w3" by simp_all
  let ?pre = "p1 @ [TableInfo ?t, SelectCoalesceMax ?t ?c 1]"
  have a1: "list_all (allowed Kfiles {}) p1" using p1(2) by simp
  have a: "list_all (allowed Kfiles {}) ?pre" "list_all (allowed Kfiles {}) (p1 @ [TableInfo ?t])"
    using a1 by (simp_all add: Kfiles_def)
  have t5: "trace w5 = trace w @ ?pre" using p1 p2 p3 tm by simp
  from assms g1 g2 g3 n1 n2 consider
      (q1) "w' = w1" "r \<noteq> None" | (q2) "w' = w2" "r \<noteq> None" | (q3) "w' = w3" "r \<noteq> None"
    | (q5) "w' = w5" "r \<noteq> None"
    | (ins) tmpl columns nd where "r1 = Inr tmpl" "r2 = Inr columns" "r3 = Inr nd"
        "execInsert e ?t columns
           [buildRowValues columns
              (sndFileOverrides fileID nd (timeFormat e sqlTime t1) (timeFormat e sqlTime t2))
              tmpl] w5 = (r, w')"
    unfolding insertSndFile_def Let_def
    by (auto split: sum.splits option.splits prod.splits if_splits)
  then show ?thesis
  proof cases
    case q1 with p1 a1 show ?thesis by auto
  next
    case q2 with p1 p2 a(2) show ?thesis by auto
  next
    case q3 with p1 p2 p3 a(1) show ?thesis by auto
  next
    case q5 with t5 a(1) show ?thesis by auto
  next
    case (ins tmpl columns nd)
    from execInsert_trace [OF ins(4)] t5 have
      "trace w' = trace w @ ?pre @
         [InsertRows ?t columns
            [buildRowValues columns
               (sndFileOverrides fileID nd (timeFormat e sqlTime (now e (ticks w)))
                  (timeFormat e sqlTime (now e (Suc (ticks w))))) tmpl]]"
      using tm by simp
    with g1 g2 g3 ins(1,2,3) a(1) show ?thesis by blast
  qed
qed

lemma insertRcvFile_trace:
  assumes "insertRcvFile e fileID w = (r, w')"
  shows "(r \<noteq> None \<and> (\<exists>pre. trace w' = trace w @ pre \<and> list_all (allowed Kfiles {}) pre))
       \<or> (\<exists>tmpl w1 columns w2 pre.
            getTemplateRow e ''rcv_files'' ''file_id'' w = (Inr tmpl, w1)
          \<and> getTableColumns e ''rcv_files'' w1 = (Inr columns, w2)
          \<and> list_all (allowed Kfiles {}) pre
          \<and> trace w' = trace w @ pre @
               [InsertRows ''rcv_files'' columns
                  [buildRowValues columns
                     (rcvFileOverrides fileID (timeFormat e sqlTime (now e (ticks w)))
                        (timeFormat e sqlTime (now e (Suc (ticks w))))) tmpl]])"
proof -
  let ?t = "''rcv_files''"
  obtain r1 w1 where g1: "getTemplateRow e ?t ''file_id'' w = (r1, w1)"
    by (cases "getTemplateRow e ?t ''file_id'' w") auto
  obtain r2 w2 where g2: "getTableColumns e ?t w1 = (r2, w2)"
    by (cases "getTableColumns e ?t w1") auto
  obtain t1 w4 where n1: "timeNow e w2 = (t1, w4)" by (cases "timeNow e w2") auto
  obtain t2 w5 where n2: "timeNow e w4 = (t2, w5)" by (cases "timeNow e w4") auto
  from getTemplateRow_world [OF g1] obtain p1 where
    p1: "trace w1 = trace w @ p1" "list_all (allowed {} {}) p1" by auto
  from getTableColumns_world [OF g2] have p2: "trace w2 = trace w1 @ [TableInfo ?t]" by simp
  have tk: "ticks w2 = ticks w"
    using getTemplateRow_ticks [OF g1] getTableColumns_ticks [OF g2] by simp
  from timeNow_value [OF n1] timeNow_value [OF n2] tk have
    tm: "t1 = now e (ticks w)" "t2 = now e (Suc (ticks w))" "trace w5 = trace w2" by simp_all
  let ?pre = "p1 @ [TableInfo ?t]"
  have a1: "list_all (allowed Kfiles {}) p1" using p1(2) by simp
  have a: "list_all (allowed Kfiles {}) ?pre" using a1 by simp
  have t5: "trace w5 = trace w @ ?pre" using p1 p2 tm by simp
  from assms g1 g2 n1 n2 consider
      (q1) "w' = w1" "r \<noteq> None" | (q2) "w' = w2" "r \<noteq> None"
    | (q5) "w' = w5" "r \<noteq> None"
    | (ins) tmpl columns where "r1 = Inr tmpl" "r2 = Inr columns"
        "execInsert e ?t columns
           [buildRowValues columns
              (rcvFileOverrides fileID (timeFormat e sqlTime t1) (timeFormat e sqlTime t2))
              tmpl] w5 = (r, w')"
    unfolding insertRcvFile_def Let_def
    by (auto split: sum.splits option.splits prod.splits if_splits)
  then show ?thesis
  proof cases
    case q1 with p1 a1 show ?thesis by auto
  next
    case q2 with p1 p2 a show ?thesis by auto
  next
    case q5 with t5 a show ?thesis by auto
  next
    case (ins tmpl columns)
    from execInsert_trace [OF ins(3)] t5 have
      "trace w' = trace w @ ?pre @
         [InsertRows ?t columns
            [buildRowValues columns
               (rcvFileOverrides fileID (timeFormat e sqlTime (now e (ticks w)))
                  (timeFormat e sqlTime (now e (Suc (ticks w))))) tmpl]]"
      using tm by simp
    with g1 g2 ins(1,2) a show ?thesis by blast
  qed
qed

lemma insertFileAttachment_trace:
  assumes "insertFileAttachment e attachment chatItemID isSent jsonDir messageType contactID
             simplexFilesDir w = (r, w')"
  shows "((\<exists>err. r = Inl err)
          \<and> (\<exists>pre. trace w' = trace w @ pre \<and> list_all (allowed Kfiles {}) pre))
       \<or> (\<exists>tmpl w1 fid w2 columns w3 name pre st w6.
            getTemplateRow e ''files'' ''file_id'' w = (Inr tmpl, w1)
          \<and> queryCoalesceMax e ''files'' ''file_id'' 1 w1 = (Inr fid, w2)
          \<and> getTableColumns e ''files'' w2 = (Inr columns, w3)
          \<and> truncateFilename e (att_Filename attachment) = Inr name
          \<and> list_all (allowed Kfiles {}) pre
          \<and> st = InsertRows ''files'' columns
                   [buildRowValues columns
                      (fileOverrides fid contactID name attachment chatItemID messageType isSent
                         (timeFormat e sqlTime (now e (ticks w)))
                         (timeFormat e sqlTime (now e (Suc (ticks w))))) tmpl]
          \<and> trace w6 = trace w @ pre @ [st]
          \<and> (w' = w6
              \<or> (messageType \<noteq> ''video'' \<and>
                  (\<exists>r7. (if isSent then insertSndFile e fid w6
                         else insertRcvFile e fid w6) = (r7, w')))))"
proof -
  let ?t = "''files''"
  obtain r1 w1 where g1: "getTemplateRow e ?t ''file_id'' w = (r1, w1)"
    by (cases "getTemplateRow e ?t ''file_id'' w") auto
  obtain r2 w2 where g2: "queryCoalesceMax e ?t ''file_id'' 1 w1 = (r2, w2)"
    by (cases "queryCoalesceMax e ?t ''file_id'' 1 w1") auto
  obtain r3 w3 where g3: "getTableColumns e ?t w2 = (r3, w3)"
    by (cases "getTableColumns e ?t w2") auto
  obtain t1 w4 where n1: "timeNow e w3 = (t1, w4)" by (cases "timeNow e w3") auto
  obtain t2 w5 where n2: "timeNow e w4 = (t2, w5)" by (cases "timeNow e w4") auto
  from getTemplateRow_world [OF g1] obtain p1 where
    p1: "trace w1 = trace w @ p1" "list_all (allowed {} {}) p1" by auto
  from queryCoalesceMax_world [OF g2] have
    p2: "trace w2 = trace w1 @ [SelectCoalesceMax ?t ''file_id'' 1]" by simp
  from getTableColumns_world [OF g3] have p3: "trace w3 = trace w2 @ [TableInfo ?t]" by simp
  have tk: "ticks w3 = ticks w"
    using getTemplateRow_ticks [OF g1] getTableColumns_ticks [OF g3]
      queryCoalesceMax_ticks [OF g2] by simp
  from timeNow_value [OF n1] timeNow_value [OF n2] tk have
    tm: "t1 = now e (ticks w)" "t2 = now e (Suc (ticks w))" "trace w5 = trace w3" by simp_all
  let ?pre = "p1 @ [SelectCoalesceMax ?t ''file_id'' 1, TableInfo ?t]"
  have a1: "list_all (allowed Kfiles {}) p1" using p1(2) by simp
  have a: "list_all (allowed Kfiles {}) ?pre"
    "list_all (allowed Kfiles {}) (p1 @ [SelectCoalesceMax ?t ''file_id'' 1])"
    using a1 by (simp_all add: Kfiles_def)
  have t5: "trace w5 = trace w @ ?pre" using p1 p2 p3 tm by simp
  from assms g1 g2 g3 n1 n2 consider
      (q0) "w' = w" "\<exists>err. r = Inl err" | (q1) "w' = w1" "\<exists>err. r = Inl err"
    | (q2) "w' = w2" "\<exists>err. r = Inl err" | (q3) "w' = w3" "\<exists>err. r = Inl err"
    | (q5) "w' = w5" "\<exists>err. r = Inl err"
    | (ins) tmpl fid columns name r6 w6 where "r1 = Inr tmpl" "r2 = Inr fid" "r3 = Inr columns"
        "truncateFilename e (att_Filename attachment) = Inr name"
        "execInsert e ?t columns
           [buildRowValues columns
              (fileOverrides fid contactID name attachment chatItemID
                 messageType isSent (timeFormat e sqlTime t1) (timeFormat e sqlTime t2))
              tmpl] w5 = (r6, w6)"
        "w' = w6 \<or> (messageType \<noteq> ''video'' \<and>
                     (\<exists>r7. (if isSent then insertSndFile e fid w6
                            else insertRcvFile e fid w6) = (r7, w')))"
    unfolding insertFileAttachment_def Let_def
    by (auto split: sum.splits option.splits prod.splits if_splits)
  then show ?thesis
  proof cases
    case q0 then show ?thesis by auto
  next
    case q1 with p1 a1 show ?thesis by auto
  next
    case q2 with p1 p2 a(2) show ?thesis by auto
  next
    case q3 with p1 p2 p3 a(1) show ?thesis by auto
  next
    case q5 with t5 a(1) show ?thesis by auto
  next
    case (ins tmpl fid columns name r6 w6)
    from execInsert_trace [OF ins(5)] t5 tm have
      "trace w6 = trace w @ ?pre @
         [InsertRows ?t columns
            [buildRowValues columns
               (fileOverrides fid contactID name attachment chatItemID messageType isSent
                  (timeFormat e sqlTime (now e (ticks w)))
                  (timeFormat e sqlTime (now e (Suc (ticks w))))) tmpl]]"
      by simp
    with g1 g2 g3 ins(1,2,3,4,6) a(1) show ?thesis by blast
  qed
qed

lemma insertedTables_allowed:
  "list_all (allowed K {}) tr \<Longrightarrow> insertedTables tr = []"
  using allowed_insertedTables [of K "{}" tr] by simp

lemma transfer_tables:
  assumes "(if isSent then insertSndFile e fid w6 else insertRcvFile e fid w6) = (r7, w')"
  shows "\<exists>post. trace w' = trace w6 @ post
              \<and> (insertedTables post = []
                  \<or> insertedTables post = [if isSent then ''snd_files'' else ''rcv_files''])"
proof (cases isSent)
  case True
  with assms have "insertSndFile e fid w6 = (r7, w')" by simp
  from insertSndFile_trace [OF this] True show ?thesis
    by (auto simp: insertedTables_append insertedTables_allowed)
next
  case False
  with assms have "insertRcvFile e fid w6 = (r7, w')" by simp
  from insertRcvFile_trace [OF this] False show ?thesis
    by (auto simp: insertedTables_append insertedTables_allowed)
qed

lemma insertFileAttachment_tables:
  assumes "insertFileAttachment e attachment chatItemID isSent jsonDir messageType contactID
             simplexFilesDir w = (r, w')"
  shows "\<exists>tr. trace w' = trace w @ tr
           \<and> (insertedTables tr = [] \<or> insertedTables tr = [''files'']
               \<or> (messageType \<noteq> ''video''
                   \<and> insertedTables tr = [''files'', if isSent then ''snd_files'' else ''rcv_files'']))"
  using insertFileAttachment_trace [OF assms]
proof (elim disjE exE conjE)
  fix err pre
  assume "trace w' = trace w @ pre" "list_all (allowed Kfiles {}) pre"
  then show ?thesis using insertedTables_allowed by blast
next
  fix tmpl w1 fid w2 columns w3 name pre st w6
  assume pre: "list_all (allowed Kfiles {}) pre"
    and st: "st = InsertRows ''files'' columns
                   [buildRowValues columns
                      (fileOverrides fid contactID name attachment chatItemID messageType isSent
                         (timeFormat e sqlTime (now e (ticks w)))
                         (timeFormat e sqlTime (now e (Suc (ticks w))))) tmpl]"
    and t6: "trace w6 = trace w @ pre @ [st]" and "w' = w6"
  have "insertedTables (pre @ [st]) = [''files'']"
    using insertedTables_allowed [OF pre] st by (simp add: insertedTables_append)
  with t6 \<open>w' = w6\<close> show ?thesis by auto
next
  fix tmpl w1 fid w2 columns w3 name pre st w6 r7
  assume pre: "list_all (allowed Kfiles {}) pre"
    and st: "st = InsertRows ''files'' columns
                   [buildRowValues columns
                      (fileOverrides fid contactID name attachment chatItemID messageType isSent
                         (timeFormat e sqlTime (now e (ticks w)))
                         (timeFormat e sqlTime (now e (Suc (ticks w))))) tmpl]"
    and t6: "trace w6 = trace w @ pre @ [st]"
    and v: "messageType \<noteq> ''video''"
    and t: "(if isSent then insertSndFile e fid w6 else insertRcvFile e fid w6) = (r7, w')"
  have f: "insertedTables (pre @ [st]) = [''files'']"
    using insertedTables_allowed [OF pre] st by (simp add: insertedTables_append)
  from transfer_tables [OF t] obtain post where post: "trace w' = trace w6 @ post"
      "insertedTables post = []
       \<or> insertedTables post = [if isSent then ''snd_files'' else ''rcv_files'']"
    by blast
  have "trace w' = trace w @ ((pre @ [st]) @ post)" using post(1) t6 by simp
  moreover have "insertedTables ((pre @ [st]) @ post) = [''files'']
      \<or> insertedTables ((pre @ [st]) @ post)
           = [''files'', if isSent then ''snd_files'' else ''rcv_files'']"
    unfolding insertedTables_append [of "pre @ [st]" post] f using post(2) by auto
  ultimately show ?thesis using v by blast
qed

lemma chunked_Nil [simp]: "chunked k mark [] = []"
  by (simp add: chunked_def)

lemma chunked_first:
  assumes "length a = k \<or> b = []" "a \<noteq> []" "length a \<le> k"
  shows "chunked k mark (a @ b) = concat a @ [mark] @ chunked k mark b"
proof (cases "b = []")
  case True
  then show ?thesis using assms chunksOf_single [of a k] by (simp add: chunked_def)
next
  case False
  with assms have "length a = k" "0 < k" by (cases a; auto)+
  from chunksOf_append [OF this] show ?thesis by (simp add: chunked_def)
qed

lemma pad_valid:
  assumes "\<And>x. V x []"
  shows "list_all2 V ys (replicate (length ys) [])"
  using assms by (induction ys) auto

lemma concat_replicate_Nil [simp]: "concat (replicate n []) = []"
  by (induction n) auto

lemma chunked_padded:
  assumes "length a \<le> k" "0 < k" "0 < length a + n"
  shows "\<exists>rest. chunked k mark (a @ replicate n []) = concat a @ [mark] @ rest"
proof -
  let ?s = "a @ replicate n []"
  have ne: "?s \<noteq> []" using assms(3) by auto
  have "chunksOf k ?s = take k ?s # chunksOf k (drop k ?s)"
    using ne assms(2) by (subst chunksOf.simps) simp
  moreover have "concat (take k ?s) = concat a" using assms(1) by simp
  ultimately show ?thesis by (simp add: chunked_def)
qed

lemma chunkLoop_tables:
  assumes "chunkLoop body xs cs i s = Some (r, s')" "1 \<le> cs" "0 \<le> i"
    and step: "\<And>i end chunk s b s1. body i end chunk s = (b, s1) \<Longrightarrow>
        \<exists>segs. length segs \<le> length chunk \<and> list_all2 V (take (length segs) chunk) segs
          \<and> ((obs s1 = obs s @ concat segs @ [mark] \<and> length segs = length chunk)
             \<or> (b \<noteq> None \<and> obs s1 = obs s @ concat segs))"
    and pad: "\<And>x. V x []"
  shows "\<exists>segs rest. list_all2 V (drop (nat i) xs) segs
           \<and> obs s' @ rest = obs s @ chunked (nat cs) mark segs
           \<and> (r = None \<longrightarrow> rest = [])"
  using assms(1,3)
proof (induction "nat (int (length xs) - i)" arbitrary: i s rule: less_induct)
  case less
  show ?case
  proof (cases "i < int (length xs)")
    case False
    with less.prems have "s' = s" by (simp add: chunkLoop_done)
    moreover from False have "drop (nat i) xs = []" by simp
    ultimately show ?thesis by (intro exI [of _ "[]"]) simp
  next
    case True
    let ?c = "chunkAt xs cs i"
    let ?rem = "drop (nat (i + cs)) xs"
    obtain b s1 where b: "body i (chunkEnd xs cs i) ?c s = (b, s1)"
      by (cases "body i (chunkEnd xs cs i) ?c s") auto
    have c: "?c = take (nat cs) (drop (nat i) xs)"
      using True less.prems(2) assms(2) by (auto simp: chunkAt_def chunkEnd_def)
    have ne: "?c \<noteq> []" "length ?c \<le> nat cs"
      using True less.prems(2) assms(2) unfolding c by auto
    have k: "0 < nat cs" using assms(2) by simp
    have split: "drop (nat i) xs = ?c @ ?rem"
      using chunkAt_append [OF True less.prems(2) assms(2)] .
    have full: "length ?c = nat cs \<or> ?rem = []"
      using True less.prems(2) assms(2) unfolding c by (auto simp: nat_add_distrib)
    from step [OF b] obtain segs where segs: "length segs \<le> length ?c"
        "list_all2 V (take (length segs) ?c) segs"
        "(obs s1 = obs s @ concat segs @ [mark] \<and> length segs = length ?c)
         \<or> (b \<noteq> None \<and> obs s1 = obs s @ concat segs)"
      by blast
    show ?thesis
    proof (cases b)
      case (Some err)
      with less.prems True b assms(2) have e: "s' = s1" "r \<noteq> None"
        by (auto simp: chunkLoop_step)
      let ?n = "length (drop (nat i) xs) - length segs"
      let ?all = "segs @ replicate ?n []"
      define ys where "ys = drop (nat i) xs"
      have tc: "take (length segs) ?c = take (length segs) ys"
        using segs(1) ne(2) unfolding c ys_def by (simp add: min_def)
      have pv: "list_all2 V (drop (length segs) ys) (replicate (length (drop (length segs) ys)) [])"
        by (rule pad_valid) (rule pad)
      have "list_all2 V (take (length segs) ys @ drop (length segs) ys)
              (segs @ replicate (length (drop (length segs) ys)) [])"
        by (rule list_all2_appendI [OF segs(2) [unfolded tc] pv])
      then have "list_all2 V ys (segs @ replicate (length ys - length segs) [])"
        by (simp only: append_take_drop_id length_drop)
      then have v: "list_all2 V (drop (nat i) xs) ?all"
        unfolding ys_def .
      have pos: "0 < length segs + ?n" using True less.prems(2) by auto
      have lk: "length segs \<le> nat cs" using segs(1) ne(2) by simp
      from chunked_padded [OF lk k pos, of mark] obtain rest0 where
        r0: "chunked (nat cs) mark ?all = concat segs @ [mark] @ rest0" by blast
      from segs(3) show ?thesis
      proof
        assume "obs s1 = obs s @ concat segs @ [mark] \<and> length segs = length ?c"
        then have "obs s' @ rest0 = obs s @ chunked (nat cs) mark ?all"
          using e r0 by simp
        with v e show ?thesis by blast
      next
        assume "b \<noteq> None \<and> obs s1 = obs s @ concat segs"
        then have "obs s' @ ([mark] @ rest0) = obs s @ chunked (nat cs) mark ?all"
          using e r0 by simp
        with v e show ?thesis by blast
      qed
    next
      case None
      with segs(3) have sent: "obs s1 = obs s @ concat segs @ [mark]" "length segs = length ?c"
        by auto
      from None less.prems True b assms(2) have
        rec: "chunkLoop body xs cs (i + cs) s1 = Some (r, s')"
        by (simp add: chunkLoop_step)
      have "\<exists>segs rest. list_all2 V ?rem segs
           \<and> obs s' @ rest = obs s1 @ chunked (nat cs) mark segs
           \<and> (r = None \<longrightarrow> rest = [])"
        using less.prems True assms(2) by (intro less.hyps [OF _ rec]) auto
      then obtain segs' rest where s': "list_all2 V ?rem segs'"
          "obs s' @ rest = obs s1 @ chunked (nat cs) mark segs'" "r = None \<longrightarrow> rest = []"
        by blast
      have v: "list_all2 V (drop (nat i) xs) (segs @ segs')"
        unfolding split using segs(2) sent(2) s'(1) by (intro list_all2_appendI) auto
      have f: "length segs = nat cs \<or> segs' = []"
        using full sent(2) s'(1) by (auto dest: list_all2_lengthD)
      have sne: "segs \<noteq> []" using sent(2) ne(1) by auto
      have "chunked (nat cs) mark (segs @ segs')
              = concat segs @ [mark] @ chunked (nat cs) mark segs'"
        using f sne sent(2) ne(2) by (intro chunked_first) auto
      with s'(2) sent(1) have "obs s' @ rest = obs s @ chunked (nat cs) mark (segs @ segs')"
        by simp
      with v s'(3) show ?thesis by blast
    qed
  qed
qed

lemma getTableColumns_value:
  "getTableColumns e t w = (Inr columns, w') \<Longrightarrow> columns = tableColumns (db w) t"
  by (auto simp: getTableColumns_def tableColumns_def split: prod.splits bool.splits)

lemma allowed_reads_UNIV: "list_all (allowed {} {}) tr \<Longrightarrow> list_all (allowed UNIV {}) tr"
  by (rule allowed_list_mono) auto

lemma bulkInsertMessages_cases:
  assumes "bulkInsertMessages e data jsonDir contactID w = Some (r, w')"
  shows "(r \<noteq> None \<and> db w' = db w
          \<and> (\<exists>pre. trace w' = trace w @ pre \<and> list_all (allowed UNIV {}) pre))
       \<or> (\<exists>tmpl w1 columns w2 cs pre.
            getTemplateRow e ''messages'' ''message_id'' w = (Inr tmpl, w1)
          \<and> getTableColumns e ''messages'' w1 = (Inr columns, w2)
          \<and> columns = tableColumns (db w) ''messages'' \<and> columns \<noteq> []
          \<and> 1 \<le> cs \<and> nat cs = rowsPerStatement (length columns)
          \<and> db w2 = db w \<and> trace w2 = trace w @ pre \<and> list_all (allowed UNIV {}) pre
          \<and> chunkLoop (messagesChunk e jsonDir columns tmpl) (bd_Messages data) cs 0 w2
               = Some (r, w'))"
proof -
  let ?t = "''messages''"
  obtain r1 w1 where g1: "getTemplateRow e ?t ''message_id'' w = (r1, w1)"
    by (cases "getTemplateRow e ?t ''message_id'' w") auto
  obtain r2 w2 where g2: "getTableColumns e ?t w1 = (r2, w2)"
    by (cases "getTableColumns e ?t w1") auto
  from getTemplateRow_world [OF g1] obtain p1 where
    p1: "trace w1 = trace w @ p1" "list_all (allowed {} {}) p1" by auto
  from getTableColumns_world [OF g2] have p2: "trace w2 = trace w1 @ [TableInfo ?t]" by simp
  have d: "db w1 = db w" "db w2 = db w"
    using getTemplateRow_db [OF g1] getTableColumns_db [OF g2] by simp_all
  have a1: "list_all (allowed UNIV {}) p1" using p1(2) by (rule allowed_reads_UNIV)
  have a2: "list_all (allowed UNIV {}) (p1 @ [TableInfo ?t])" using a1 by simp
  have t2: "trace w2 = trace w @ (p1 @ [TableInfo ?t])" using p1 p2 by simp
  have quiet: "r \<noteq> None \<Longrightarrow> w' = w1 \<or> w' = w2 \<Longrightarrow> ?thesis"
    using p1 a1 a2 t2 d by auto
  show ?thesis
  proof (cases r1)
    case (Inl err)
    with assms g1 have "w' = w1" "r \<noteq> None" by (auto simp: bulkInsertMessages_def)
    with quiet show ?thesis by simp
  next
    case tm: (Inr tmpl)
    show ?thesis
    proof (cases r2)
      case (Inl err)
      with assms g1 g2 tm have "w' = w2" "r \<noteq> None" by (auto simp: bulkInsertMessages_def)
      with quiet show ?thesis by simp
    next
      case co: (Inr columns)
      show ?thesis
      proof (cases "calculateChunkSize (int (length columns)) 900")
        case (Inl err)
        with assms g1 g2 tm co have "w' = w2" "r \<noteq> None"
          by (auto simp: bulkInsertMessages_def)
        with quiet show ?thesis by simp
      next
        case (Inr cs)
        from calculateChunkSize_rows [OF Inr] have
          cs: "nat cs = rowsPerStatement (length columns)" "1 \<le> cs" "columns \<noteq> []" by auto
        from assms g1 g2 tm co Inr have
          loop: "chunkLoop (messagesChunk e jsonDir columns tmpl) (bd_Messages data) cs 0 w2
                   = Some (r, w')"
          by (simp add: bulkInsertMessages_def)
        have "columns = tableColumns (db w) ?t"
          using getTableColumns_value [OF g2 [unfolded co]] d by simp
        with g1 g2 tm co cs d t2 a2 loop show ?thesis by blast
      qed
    qed
  qed
qed

lemma bulkInsertChatItems_cases:
  assumes "bulkInsertChatItems e data jsonDir contactID simplexFilesDir w = Some (r, w')"
  shows "(r \<noteq> None \<and> db w' = db w
          \<and> (\<exists>pre. trace w' = trace w @ pre \<and> list_all (allowed UNIV {}) pre))
       \<or> (\<exists>tmpl w1 columns w2 cs pre.
            getTemplateRow e ''chat_items'' ''chat_item_id'' w = (Inr tmpl, w1)
          \<and> getTableColumns e ''chat_items'' w1 = (Inr columns, w2)
          \<and> columns = tableColumns (db w) ''chat_items'' \<and> columns \<noteq> []
          \<and> 1 \<le> cs \<and> nat cs = rowsPerStatement (length columns)
          \<and> db w2 = db w \<and> trace w2 = trace w @ pre \<and> list_all (allowed UNIV {}) pre
          \<and> chunkLoop (chatItemsChunk e jsonDir contactID simplexFilesDir columns tmpl)
               (bd_Messages data) cs 0 w2 = Some (r, w'))"
proof -
  let ?t = "''chat_items''"
  obtain r1 w1 where g1: "getTemplateRow e ?t ''chat_item_id'' w = (r1, w1)"
    by (cases "getTemplateRow e ?t ''chat_item_id'' w") auto
  obtain r2 w2 where g2: "getTableColumns e ?t w1 = (r2, w2)"
    by (cases "getTableColumns e ?t w1") auto
  from getTemplateRow_world [OF g1] obtain p1 where
    p1: "trace w1 = trace w @ p1" "list_all (allowed {} {}) p1" by auto
  from getTableColumns_world [OF g2] have p2: "trace w2 = trace w1 @ [TableInfo ?t]" by simp
  have d: "db w1 = db w" "db w2 = db w"
    using getTemplateRow_db [OF g1] getTableColumns_db [OF g2] by simp_all
  have a1: "list_all (allowed UNIV {}) p1" using p1(2) by (rule allowed_reads_UNIV)
  have a2: "list_all (allowed UNIV {}) (p1 @ [TableInfo ?t])" using a1 by simp
  have t2: "trace w2 = trace w @ (p1 @ [TableInfo ?t])" using p1 p2 by simp
  have quiet: "r \<noteq> None \<Longrightarrow> w' = w1 \<or> w' = w2 \<Longrightarrow> ?thesis"
    using p1 a1 a2 t2 d by auto
  show ?thesis
  proof (cases r1)
    case (Inl err)
    with assms g1 have "w' = w1" "r \<noteq> None" by (auto simp: bulkInsertChatItems_def)
    with quiet show ?thesis by simp
  next
    case tm: (Inr tmpl)
    show ?thesis
    proof (cases r2)
      case (Inl err)
      with assms g1 g2 tm have "w' = w2" "r \<noteq> None" by (auto simp: bulkInsertChatItems_def)
      with quiet show ?thesis by simp
    next
      case co: (Inr columns)
      show ?thesis
      proof (cases "calculateChunkSize (int (length columns)) 900")
        case (Inl err)
        with assms g1 g2 tm co have "w' = w2" "r \<noteq> None"
          by (auto simp: bulkInsertChatItems_def)
        with quiet show ?thesis by simp
      next
        case (Inr cs)
        from calculateChunkSize_rows [OF Inr] have
          cs: "nat cs = rowsPerStatement (length columns)" "1 \<le> cs" "columns \<noteq> []" by auto
        from assms g1 g2 tm co Inr have
          loop: "chunkLoop (chatItemsChunk e jsonDir contactID simplexFilesDir columns tmpl)
                   (bd_Messages data) cs 0 w2 = Some (r, w')"
          by (simp add: bulkInsertChatItems_def)
        have "columns = tableColumns (db w) ?t"
          using getTableColumns_value [OF g2 [unfolded co]] d by simp
        with g1 g2 tm co cs d t2 a2 loop show ?thesis by blast
      qed
    qed
  qed
qed

lemma bulkInsertChatItemMessages_cases:
  assumes "bulkInsertChatItemMessages e data w = Some (r, w')"
  shows "(r \<noteq> None \<and> db w' = db w
          \<and> (\<exists>pre. trace w' = trace w @ pre \<and> list_all (allowed UNIV {}) pre))
       \<or> (\<exists>tmpl w1 columns w2 nextRowID w3 cs pre.
            getTemplateRow e ''chat_item_messages'' ''rowid'' w = (Inr tmpl, w1)
          \<and> getTableColumns e ''chat_item_messages'' w1 = (Inr columns, w2)
          \<and> queryCoalesceMax e ''chat_item_messages'' ''rowid'' 1 w2 = (Inr nextRowID, w3)
          \<and> evalCoalesceMax e (db w) ''chat_item_messages'' ''rowid'' 1 = Inr nextRowID
          \<and> columns = tableColumns (db w) ''chat_item_messages'' \<and> columns \<noteq> []
          \<and> 1 \<le> cs \<and> nat cs = rowsPerStatement (length columns)
          \<and> db w3 = db w \<and> trace w3 = trace w @ pre \<and> list_all (allowed UNIV {}) pre
          \<and> chunkLoop (chatItemMessagesChunk e columns tmpl nextRowID) (bd_Messages data)
               cs 0 w3 = Some (r, w'))"
proof -
  let ?t = "''chat_item_messages''"
  obtain r1 w1 where g1: "getTemplateRow e ?t ''rowid'' w = (r1, w1)"
    by (cases "getTemplateRow e ?t ''rowid'' w") auto
  obtain r2 w2 where g2: "getTableColumns e ?t w1 = (r2, w2)"
    by (cases "getTableColumns e ?t w1") auto
  obtain r3 w3 where g3: "queryCoalesceMax e ?t ''rowid'' 1 w2 = (r3, w3)"
    by (cases "queryCoalesceMax e ?t ''rowid'' 1 w2") auto
  from getTemplateRow_world [OF g1] obtain p1 where
    p1: "trace w1 = trace w @ p1" "list_all (allowed {} {}) p1" by auto
  from getTableColumns_world [OF g2] have p2: "trace w2 = trace w1 @ [TableInfo ?t]" by simp
  from queryCoalesceMax_world [OF g3] have
    p3: "trace w3 = trace w2 @ [SelectCoalesceMax ?t ''rowid'' 1]" by simp
  have d: "db w1 = db w" "db w2 = db w" "db w3 = db w"
    using getTemplateRow_db [OF g1] getTableColumns_db [OF g2] queryCoalesceMax_db [OF g3]
    by simp_all
  have a1: "list_all (allowed UNIV {}) p1" using p1(2) by (rule allowed_reads_UNIV)
  have a2: "list_all (allowed UNIV {}) (p1 @ [TableInfo ?t])" using a1 by simp
  have a3: "list_all (allowed UNIV {}) (p1 @ [TableInfo ?t, SelectCoalesceMax ?t ''rowid'' 1])"
    using a1 by simp
  have t2: "trace w2 = trace w @ (p1 @ [TableInfo ?t])" using p1 p2 by simp
  have t3: "trace w3 = trace w @ (p1 @ [TableInfo ?t, SelectCoalesceMax ?t ''rowid'' 1])"
    using p1 p2 p3 by simp
  have quiet: "r \<noteq> None \<Longrightarrow> w' = w1 \<or> w' = w2 \<or> w' = w3 \<Longrightarrow> ?thesis"
    using p1 a1 a2 a3 t2 t3 d by auto
  show ?thesis
  proof (cases r1)
    case (Inl err)
    with assms g1 have "w' = w1" "r \<noteq> None" by (auto simp: bulkInsertChatItemMessages_def)
    with quiet show ?thesis by simp
  next
    case tm: (Inr tmpl)
    show ?thesis
    proof (cases r2)
      case (Inl err)
      with assms g1 g2 tm have "w' = w2" "r \<noteq> None"
        by (auto simp: bulkInsertChatItemMessages_def)
      with quiet show ?thesis by simp
    next
      case co: (Inr columns)
      show ?thesis
      proof (cases r3)
        case (Inl err)
        with assms g1 g2 g3 tm co have "w' = w3" "r \<noteq> None"
          by (auto simp: bulkInsertChatItemMessages_def)
        with quiet show ?thesis by simp
      next
        case ky: (Inr nextRowID)
        show ?thesis
        proof (cases "calculateChunkSize (int (length columns)) 900")
          case (Inl err)
          with assms g1 g2 g3 tm co ky have "w' = w3" "r \<noteq> None"
            by (auto simp: bulkInsertChatItemMessages_def)
          with quiet show ?thesis by simp
        next
          case (Inr cs)
          from calculateChunkSize_rows [OF Inr] have
            cs: "nat cs = rowsPerStatement (length columns)" "1 \<le> cs" "columns \<noteq> []" by auto
          from assms g1 g2 g3 tm co ky Inr have
            loop: "chunkLoop (chatItemMessagesChunk e columns tmpl nextRowID) (bd_Messages data)
                     cs 0 w3 = Some (r, w')"
            by (simp add: bulkInsertChatItemMessages_def)
          have c: "columns = tableColumns (db w) ?t"
            using getTableColumns_value [OF g2 [unfolded co]] d by simp
          have k: "evalCoalesceMax e (db w) ?t ''rowid'' 1 = Inr nextRowID"
            using queryCoalesceMax_value [OF g3 [unfolded ky]] d by simp
          from g1 g2 g3 tm co ky cs d t3 a3 loop c k show ?thesis by blast
        qed
      qed
    qed
  qed
qed

lemma bulkInsertMsgDeliveries_cases:
  assumes "bulkInsertMsgDeliveries e data w = Some (r, w')"
  shows "(r \<noteq> None \<and> db w' = db w
          \<and> (\<exists>pre. trace w' = trace w @ pre \<and> list_all (allowed UNIV {}) pre))
       \<or> (\<exists>tmpl w1 columns w2 maxAgentMsgID w3 cs pre.
            getTemplateRow e ''msg_deliveries'' ''msg_delivery_id'' w = (Inr tmpl, w1)
          \<and> getTableColumns e ''msg_deliveries'' w1 = (Inr columns, w2)
          \<and> queryCoalesceMax e ''msg_deliveries'' ''agent_msg_id'' 0 w2 = (Inr maxAgentMsgID, w3)
          \<and> evalCoalesceMax e (db w) ''msg_deliveries'' ''agent_msg_id'' 0 = Inr maxAgentMsgID
          \<and> columns = tableColumns (db w) ''msg_deliveries'' \<and> columns \<noteq> []
          \<and> 1 \<le> cs \<and> nat cs = rowsPerStatement (length columns)
          \<and> db w3 = db w \<and> trace w3 = trace w @ pre \<and> list_all (allowed UNIV {}) pre
          \<and> chunkLoop (msgDeliveriesChunk e columns tmpl maxAgentMsgID) (bd_Messages data)
               cs 0 w3 = Some (r, w'))"
proof -
  let ?t = "''msg_deliveries''"
  obtain r1 w1 where g1: "getTemplateRow e ?t ''msg_delivery_id'' w = (r1, w1)"
    by (cases "getTemplateRow e ?t ''msg_delivery_id'' w") auto
  obtain r2 w2 where g2: "getTableColumns e ?t w1 = (r2, w2)"
    by (cases "getTableColumns e ?t w1") auto
  obtain r3 w3 where g3: "queryCoalesceMax e ?t ''agent_msg_id'' 0 w2 = (r3, w3)"
    by (cases "queryCoalesceMax e ?t ''agent_msg_id'' 0 w2") auto
  from getTemplateRow_world [OF g1] obtain p1 where
    p1: "trace w1 = trace w @ p1" "list_all (allowed {} {}) p1" by auto
  from getTableColumns_world [OF g2] have p2: "trace w2 = trace w1 @ [TableInfo ?t]" by simp
  from queryCoalesceMax_world [OF g3] have
    p3: "trace w3 = trace w2 @ [SelectCoalesceMax ?t ''agent_msg_id'' 0]" by simp
  have d: "db w1 = db w" "db w2 = db w" "db w3 = db w"
    using getTemplateRow_db [OF g1] getTableColumns_db [OF g2] queryCoalesceMax_db [OF g3]
    by simp_all
  have a1: "list_all (allowed UNIV {}) p1" using p1(2) by (rule allowed_reads_UNIV)
  have a2: "list_all (allowed UNIV {}) (p1 @ [TableInfo ?t])" using a1 by simp
  have a3: "list_all (allowed UNIV {})
              (p1 @ [TableInfo ?t, SelectCoalesceMax ?t ''agent_msg_id'' 0])"
    using a1 by simp
  have t2: "trace w2 = trace w @ (p1 @ [TableInfo ?t])" using p1 p2 by simp
  have t3: "trace w3 = trace w @ (p1 @ [TableInfo ?t, SelectCoalesceMax ?t ''agent_msg_id'' 0])"
    using p1 p2 p3 by simp
  have quiet: "r \<noteq> None \<Longrightarrow> w' = w1 \<or> w' = w2 \<or> w' = w3 \<Longrightarrow> ?thesis"
    using p1 a1 a2 a3 t2 t3 d by auto
  show ?thesis
  proof (cases r1)
    case (Inl err)
    with assms g1 have "w' = w1" "r \<noteq> None" by (auto simp: bulkInsertMsgDeliveries_def)
    with quiet show ?thesis by simp
  next
    case tm: (Inr tmpl)
    show ?thesis
    proof (cases r2)
      case (Inl err)
      with assms g1 g2 tm have "w' = w2" "r \<noteq> None"
        by (auto simp: bulkInsertMsgDeliveries_def)
      with quiet show ?thesis by simp
    next
      case co: (Inr columns)
      show ?thesis
      proof (cases r3)
        case (Inl err)
        with assms g1 g2 g3 tm co have "w' = w3" "r \<noteq> None"
          by (auto simp: bulkInsertMsgDeliveries_def)
        with quiet show ?thesis by simp
      next
        case ky: (Inr maxAgentMsgID)
        show ?thesis
        proof (cases "calculateChunkSize (int (length columns)) 900")
          case (Inl err)
          with assms g1 g2 g3 tm co ky have "w' = w3" "r \<noteq> None"
            by (auto simp: bulkInsertMsgDeliveries_def)
          with quiet show ?thesis by simp
        next
          case (Inr cs)
          from calculateChunkSize_rows [OF Inr] have
            cs: "nat cs = rowsPerStatement (length columns)" "1 \<le> cs" "columns \<noteq> []" by auto
          from assms g1 g2 g3 tm co ky Inr have
            loop: "chunkLoop (msgDeliveriesChunk e columns tmpl maxAgentMsgID)
                     (bd_Messages data) cs 0 w3 = Some (r, w')"
            by (simp add: bulkInsertMsgDeliveries_def)
          have c: "columns = tableColumns (db w) ?t"
            using getTableColumns_value [OF g2 [unfolded co]] d by simp
          have k: "evalCoalesceMax e (db w) ?t ''agent_msg_id'' 0 = Inr maxAgentMsgID"
            using queryCoalesceMax_value [OF g3 [unfolded ky]] d by simp
          from g1 g2 g3 tm co ky cs d t3 a3 loop c k show ?thesis by blast
        qed
      qed
    qed
  qed
qed

lemma simpleChunk_tables:
  assumes "(case chunkRows f 0 chunk of
              Inl err \<Rightarrow> (Some err, w)
            | Inr rows \<Rightarrow>
                (case execInsert e t columns rows w of
                   (Some err, w') \<Rightarrow> (Some (wrapErr msg err), w')
                 | (None, w') \<Rightarrow> (None, w'))) = (b, w1)"
  shows "\<exists>segs. length segs \<le> length chunk
           \<and> list_all2 (\<lambda>x seg. seg = []) (take (length segs) chunk) segs
           \<and> ((insertedTables (trace w1) = insertedTables (trace w) @ concat segs @ [t]
                \<and> length segs = length chunk)
               \<or> (b \<noteq> None \<and> insertedTables (trace w1) = insertedTables (trace w) @ concat segs))"
proof (cases "chunkRows f 0 chunk")
  case (Inl err)
  with assms have "b \<noteq> None" "w1 = w" by auto
  then show ?thesis by (intro exI [of _ "[]"]) simp
next
  case (Inr rows)
  from assms Inr obtain r1 where x: "execInsert e t columns rows w = (r1, w1)"
    by (auto split: prod.splits option.splits)
  have v: "list_all2 (\<lambda>x seg. seg = []) chunk (replicate (length chunk) [])"
    by (rule pad_valid) simp
  from execInsert_trace [OF x] v show ?thesis
    by (intro exI [of _ "replicate (length chunk) []"]) (simp add: insertedTables_append)
qed

lemma chatItemsChunkRows_tables:
  assumes "chatItemsChunkRows e jsonDir contactID simplexFilesDir columns templateRow chunk w
             = (res, w')"
  shows "\<exists>segs. length segs \<le> length chunk
           \<and> list_all2 (\<lambda>m seg. seg \<in> set (fileTables (mi_Message m)))
                (take (length segs) chunk) segs
           \<and> insertedTables (trace w') = insertedTables (trace w) @ concat segs
           \<and> ((\<exists>rows. res = Inr rows) \<longrightarrow> length segs = length chunk)"
  using assms
proof (induction chunk arbitrary: w res w')
  case Nil
  then show ?case by simp
next
  case (Cons msgData rest)
  let ?msg = "mi_Message msgData"
  have "\<exists>w1 seg. seg \<in> set (fileTables ?msg)
          \<and> insertedTables (trace w1) = insertedTables (trace w) @ seg
          \<and> (((\<exists>err. res = Inl err) \<and> w' = w1)
              \<or> (\<exists>r2 row. chatItemRow e jsonDir contactID columns templateRow msgData = Inr row
                    \<and> chatItemsChunkRows e jsonDir contactID simplexFilesDir columns
                         templateRow rest w1 = (r2, w')
                    \<and> ((\<exists>rows. res = Inr rows) \<longrightarrow> (\<exists>rows. r2 = Inr rows))))"
  proof (cases "um_Attachments ?msg")
    case Nil
    have s: "[] \<in> set (fileTables ?msg)" by (simp add: fileTables_def)
    from Cons.prems Nil have
      "((\<exists>err. res = Inl err) \<and> w' = w)
       \<or> (\<exists>r2 row. chatItemRow e jsonDir contactID columns templateRow msgData = Inr row
             \<and> chatItemsChunkRows e jsonDir contactID simplexFilesDir columns
                  templateRow rest w = (r2, w')
             \<and> ((\<exists>rows. res = Inr rows) \<longrightarrow> (\<exists>rows. r2 = Inr rows)))"
      by (auto simp: Let_def split: sum.splits prod.splits)
    with s show ?thesis by (intro exI [of _ w] exI [of _ "[]"]) simp
  next
    case (Cons attachment atts)
    obtain fr w1 where f: "insertFileAttachment e attachment (mi_ChatItemID msgData)
        (um_IsSent ?msg) jsonDir (um_MessageType ?msg) contactID simplexFilesDir w = (fr, w1)"
      by (cases "insertFileAttachment e attachment (mi_ChatItemID msgData)
        (um_IsSent ?msg) jsonDir (um_MessageType ?msg) contactID simplexFilesDir w") auto
    from insertFileAttachment_tables [OF f] obtain tr where
      tr: "trace w1 = trace w @ tr"
          "insertedTables tr = [] \<or> insertedTables tr = [''files'']
           \<or> (um_MessageType ?msg \<noteq> ''video''
               \<and> insertedTables tr
                   = [''files'', if um_IsSent ?msg then ''snd_files'' else ''rcv_files''])"
      by blast
    have s: "insertedTables tr \<in> set (fileTables ?msg)"
      using tr(2) Cons by (auto simp: fileTables_def)
    have t: "insertedTables (trace w1) = insertedTables (trace w) @ insertedTables tr"
      using tr(1) by (simp add: insertedTables_append)
    from Cons.prems Cons f have
      "((\<exists>err. res = Inl err) \<and> w' = w1)
       \<or> (\<exists>r2 row. chatItemRow e jsonDir contactID columns templateRow msgData = Inr row
             \<and> chatItemsChunkRows e jsonDir contactID simplexFilesDir columns
                  templateRow rest w1 = (r2, w')
             \<and> ((\<exists>rows. res = Inr rows) \<longrightarrow> (\<exists>rows. r2 = Inr rows)))"
      by (auto simp: Let_def split: sum.splits prod.splits if_splits)
    with s t show ?thesis by blast
  qed
  then obtain w1 seg where seg: "seg \<in> set (fileTables ?msg)"
      "insertedTables (trace w1) = insertedTables (trace w) @ seg"
      "((\<exists>err. res = Inl err) \<and> w' = w1)
       \<or> (\<exists>r2 row. chatItemRow e jsonDir contactID columns templateRow msgData = Inr row
             \<and> chatItemsChunkRows e jsonDir contactID simplexFilesDir columns
                  templateRow rest w1 = (r2, w')
             \<and> ((\<exists>rows. res = Inr rows) \<longrightarrow> (\<exists>rows. r2 = Inr rows)))"
    by blast
  from seg(3) show ?case
  proof
    assume "(\<exists>err. res = Inl err) \<and> w' = w1"
    with seg(1,2) show ?thesis by (intro exI [of _ "[seg]"]) auto
  next
    assume "\<exists>r2 row. chatItemRow e jsonDir contactID columns templateRow msgData = Inr row
             \<and> chatItemsChunkRows e jsonDir contactID simplexFilesDir columns
                  templateRow rest w1 = (r2, w')
             \<and> ((\<exists>rows. res = Inr rows) \<longrightarrow> (\<exists>rows. r2 = Inr rows))"
    then obtain r2 where r2: "chatItemsChunkRows e jsonDir contactID simplexFilesDir columns
                  templateRow rest w1 = (r2, w')"
        "(\<exists>rows. res = Inr rows) \<longrightarrow> (\<exists>rows. r2 = Inr rows)" by blast
    from Cons.IH [OF r2(1)] obtain segs where segs: "length segs \<le> length rest"
        "list_all2 (\<lambda>m seg. seg \<in> set (fileTables (mi_Message m)))
           (take (length segs) rest) segs"
        "insertedTables (trace w') = insertedTables (trace w1) @ concat segs"
        "(\<exists>rows. r2 = Inr rows) \<longrightarrow> length segs = length rest"
      by blast
    with seg(1,2) r2(2) show ?thesis by (intro exI [of _ "seg # segs"]) auto
  qed
qed

lemma chatItemsChunk_tables:
  assumes "chatItemsChunk e jsonDir contactID simplexFilesDir columns tmpl i end chunk w = (b, w')"
  shows "\<exists>segs. length segs \<le> length chunk
           \<and> list_all2 (\<lambda>m seg. seg \<in> set (fileTables (mi_Message m)))
                (take (length segs) chunk) segs
           \<and> ((insertedTables (trace w') = insertedTables (trace w) @ concat segs @ [''chat_items'']
                \<and> length segs = length chunk)
               \<or> (b \<noteq> None \<and> insertedTables (trace w') = insertedTables (trace w) @ concat segs))"
proof -
  obtain rr w1 where c: "chatItemsChunkRows e jsonDir contactID simplexFilesDir columns
      tmpl chunk w = (rr, w1)"
    by (cases "chatItemsChunkRows e jsonDir contactID simplexFilesDir columns tmpl chunk w") auto
  from chatItemsChunkRows_tables [OF c] obtain segs where segs: "length segs \<le> length chunk"
      "list_all2 (\<lambda>m seg. seg \<in> set (fileTables (mi_Message m))) (take (length segs) chunk) segs"
      "insertedTables (trace w1) = insertedTables (trace w) @ concat segs"
      "(\<exists>rows. rr = Inr rows) \<longrightarrow> length segs = length chunk"
    by blast
  show ?thesis
  proof (cases rr)
    case (Inl err)
    with assms c have "w' = w1" "b \<noteq> None" by (auto simp: chatItemsChunk_def)
    with segs show ?thesis by blast
  next
    case (Inr rows)
    from assms c Inr obtain r1 where
      x: "execInsert e ''chat_items'' columns rows w1 = (r1, w')"
      by (auto simp: chatItemsChunk_def split: prod.splits option.splits)
    from execInsert_trace [OF x] segs(3) have
      "insertedTables (trace w') = insertedTables (trace w) @ concat segs @ [''chat_items'']"
      by (simp add: insertedTables_append)
    with segs Inr show ?thesis by blast
  qed
qed

lemma stage_tables:
  assumes loop: "chunkLoop body xs cs 0 w2 = Some (r, w')" "1 \<le> cs"
    and step: "\<And>i end chunk s b s1. body i end chunk s = (b, s1) \<Longrightarrow>
        \<exists>segs. length segs \<le> length chunk \<and> list_all2 V (take (length segs) chunk) segs
          \<and> ((insertedTables (trace s1) = insertedTables (trace s) @ concat segs @ [mark]
               \<and> length segs = length chunk)
             \<or> (b \<noteq> None \<and> insertedTables (trace s1) = insertedTables (trace s) @ concat segs))"
    and pad: "\<And>x. V x []"
    and pre: "trace w2 = trace w @ pre" "insertedTables pre = []"
    and ext: "\<exists>tr. trace w' = trace w2 @ tr"
  shows "\<exists>segs rest. list_all2 V xs segs
           \<and> insertedTables (added w w') @ rest = chunked (nat cs) mark segs
           \<and> (r = None \<longrightarrow> rest = [])"
proof -
  have "\<exists>segs rest. list_all2 V (drop (nat 0) xs) segs
           \<and> insertedTables (trace w') @ rest = insertedTables (trace w2) @ chunked (nat cs) mark segs
           \<and> (r = None \<longrightarrow> rest = [])"
    using loop
  proof (rule chunkLoop_tables [where obs = "\<lambda>s. insertedTables (trace s)"])
    show "(0::int) \<le> 0" by simp
  next
    fix i "end" chunk s b s1
    assume "body i end chunk s = (b, s1)"
    then show "\<exists>segs. length segs \<le> length chunk \<and> list_all2 V (take (length segs) chunk) segs
          \<and> ((insertedTables (trace s1) = insertedTables (trace s) @ concat segs @ [mark]
               \<and> length segs = length chunk)
             \<or> (b \<noteq> None \<and> insertedTables (trace s1) = insertedTables (trace s) @ concat segs))"
      by (rule step)
  next
    fix x show "V x []" by (rule pad)
  qed
  then obtain segs rest where s: "list_all2 V xs segs"
      "insertedTables (trace w') @ rest = insertedTables (trace w2) @ chunked (nat cs) mark segs"
      "r = None \<longrightarrow> rest = []"
    by auto
  from ext obtain tr where tr: "trace w' = trace w2 @ tr" by blast
  from s(2) have "insertedTables tr @ rest = chunked (nat cs) mark segs"
    unfolding tr by (simp add: insertedTables_append)
  moreover have "added w w' = pre @ tr" using tr pre(1) by (simp add: added_def)
  ultimately have "insertedTables (added w w') @ rest = chunked (nat cs) mark segs"
    using pre(2) by (simp add: insertedTables_append)
  with s show ?thesis by blast
qed

lemma evalCoalesceMax_int64: "evalCoalesceMax e d t c k = Inr n \<Longrightarrow> int64 n"
  by (auto simp: evalCoalesceMax_def Let_def split: option.splits if_splits sum.splits)

lemma evalCoalesceMax_table:
  "d t = d' t \<Longrightarrow> evalCoalesceMax e d t c k = evalCoalesceMax e d' t c k"
  by (simp add: evalCoalesceMax_def)

lemma chunksOf_set: "c \<in> set (chunksOf k xs) \<Longrightarrow> set c \<subseteq> set xs"
proof (induction k xs rule: chunksOf.induct)
  case (1 k xs)
  from "1.prems" have ne: "xs \<noteq> []" "k \<noteq> 0"
    by (auto simp: chunksOf.simps [of k xs] split: if_splits)
  from "1.prems" ne have "c = take k xs \<or> c \<in> set (chunksOf k (drop k xs))"
    by (subst (asm) chunksOf.simps) auto
  then show ?case using "1.IH" ne by (auto dest: in_set_takeD in_set_dropD)
qed

lemma chunked_quiet:
  assumes "\<forall>seg\<in>set segs. seg = []"
  shows "chunked k t segs = replicate (length (chunksOf k segs)) t"
proof -
  have "\<forall>ch\<in>set (chunksOf k segs). concat ch = []"
    using chunksOf_set assms by fastforce
  then have "concat (map (\<lambda>ch. concat ch @ [t]) chs) = replicate (length chs) t"
    if "set chs \<subseteq> set (chunksOf k segs)" for chs
    using that by (induction chs) auto
  then show ?thesis by (simp add: chunked_def)
qed

lemma chunksOf_length_cong:
  "length xs = length ys \<Longrightarrow> length (chunksOf k xs) = length (chunksOf k ys)"
proof (cases "0 < k")
  case True
  assume "length xs = length ys"
  then show ?thesis using True by (simp add: chunksOf_length)
next
  case False
  then show ?thesis by (simp add: chunksOf.simps)
qed

lemma quiet_tables:
  assumes "list_all2 (\<lambda>x seg. seg = []) xs segs"
  shows "chunked k t segs = replicate (length (chunksOf k xs)) t"
proof -
  have "\<forall>seg\<in>set segs. seg = []"
    using assms by (auto simp: list_all2_conv_all_nth in_set_conv_nth)
  from chunked_quiet [OF this] chunksOf_length_cong [OF list_all2_lengthD [OF assms], of k]
  show ?thesis by simp
qed

lemma rowsPerStatement_pos: "0 < rowsPerStatement C"
  by (auto simp: rowsPerStatement_def) (metis div_greater_zero_iff not_le zero_less_numeral neq0_conv)

lemma bulkInsertMessages_tables:
  assumes "bulkInsertMessages e data jsonDir contactID w = Some (r, w')"
  shows "\<exists>rest. insertedTables (added w w') @ rest
            = replicate (length (chunksOf
                (rowsPerStatement (length (tableColumns (db w) ''messages'')))
                (bd_Messages data))) ''messages''
          \<and> (r = None \<longrightarrow> rest = [])"
  using bulkInsertMessages_cases [OF assms]
proof (elim disjE exE conjE)
  fix pre
  assume "r \<noteq> None" "trace w' = trace w @ pre" "list_all (allowed UNIV {}) pre"
  then show ?thesis by (auto simp: added_def insertedTables_allowed)
next
  fix tmpl w1 columns w2 cs pre
  assume c: "columns = tableColumns (db w) ''messages''" "1 \<le> cs"
      "nat cs = rowsPerStatement (length columns)"
    and pre: "trace w2 = trace w @ pre" "list_all (allowed UNIV {}) pre"
    and loop: "chunkLoop (messagesChunk e jsonDir columns tmpl) (bd_Messages data) cs 0 w2
                 = Some (r, w')"
  have ext: "\<exists>tr. trace w' = trace w2 @ tr"
    using chunkLoop_extends [OF loop c(2) messagesChunk_extends] by (rule extends_ex)
  have "\<exists>segs rest. list_all2 (\<lambda>x seg. seg = []) (bd_Messages data) segs
           \<and> insertedTables (added w w') @ rest = chunked (nat cs) ''messages'' segs
           \<and> (r = None \<longrightarrow> rest = [])"
    using loop c(2)
  proof (rule stage_tables)
    fix i "end" chunk s b s1
    assume "messagesChunk e jsonDir columns tmpl i end chunk s = (b, s1)"
    from simpleChunk_tables [OF this [unfolded messagesChunk_def]]
    show "\<exists>segs. length segs \<le> length chunk
           \<and> list_all2 (\<lambda>x seg. seg = []) (take (length segs) chunk) segs
           \<and> ((insertedTables (trace s1) = insertedTables (trace s) @ concat segs @ [''messages'']
                \<and> length segs = length chunk)
               \<or> (b \<noteq> None \<and> insertedTables (trace s1) = insertedTables (trace s) @ concat segs))" .
  qed (use pre ext insertedTables_allowed in auto)
  then show ?thesis using quiet_tables c by fastforce
qed

lemma bulkInsertChatItemMessages_tables:
  assumes "bulkInsertChatItemMessages e data w = Some (r, w')"
  shows "\<exists>rest. insertedTables (added w w') @ rest
            = replicate (length (chunksOf
                (rowsPerStatement (length (tableColumns (db w) ''chat_item_messages'')))
                (bd_Messages data))) ''chat_item_messages''
          \<and> (r = None \<longrightarrow> rest = [])"
  using bulkInsertChatItemMessages_cases [OF assms]
proof (elim disjE exE conjE)
  fix pre
  assume "r \<noteq> None" "trace w' = trace w @ pre" "list_all (allowed UNIV {}) pre"
  then show ?thesis by (auto simp: added_def insertedTables_allowed)
next
  fix tmpl w1 columns w2 nextRowID w3 cs pre
  assume c: "columns = tableColumns (db w) ''chat_item_messages''" "1 \<le> cs"
      "nat cs = rowsPerStatement (length columns)"
    and pre: "trace w3 = trace w @ pre" "list_all (allowed UNIV {}) pre"
    and loop: "chunkLoop (chatItemMessagesChunk e columns tmpl nextRowID) (bd_Messages data)
                 cs 0 w3 = Some (r, w')"
  have ext: "\<exists>tr. trace w' = trace w3 @ tr"
    using chunkLoop_extends [OF loop c(2) chatItemMessagesChunk_extends] by (rule extends_ex)
  have "\<exists>segs rest. list_all2 (\<lambda>x seg. seg = []) (bd_Messages data) segs
           \<and> insertedTables (added w w') @ rest = chunked (nat cs) ''chat_item_messages'' segs
           \<and> (r = None \<longrightarrow> rest = [])"
    using loop c(2)
  proof (rule stage_tables)
    fix i "end" chunk s b s1
    assume "chatItemMessagesChunk e columns tmpl nextRowID i end chunk s = (b, s1)"
    from simpleChunk_tables [OF this [unfolded chatItemMessagesChunk_def]]
    show "\<exists>segs. length segs \<le> length chunk
           \<and> list_all2 (\<lambda>x seg. seg = []) (take (length segs) chunk) segs
           \<and> ((insertedTables (trace s1)
                  = insertedTables (trace s) @ concat segs @ [''chat_item_messages'']
                \<and> length segs = length chunk)
               \<or> (b \<noteq> None \<and> insertedTables (trace s1) = insertedTables (trace s) @ concat segs))" .
  qed (use pre ext insertedTables_allowed in auto)
  then show ?thesis using quiet_tables c by fastforce
qed

lemma bulkInsertMsgDeliveries_tables:
  assumes "bulkInsertMsgDeliveries e data w = Some (r, w')"
  shows "\<exists>rest. insertedTables (added w w') @ rest
            = replicate (length (chunksOf
                (rowsPerStatement (length (tableColumns (db w) ''msg_deliveries'')))
                (bd_Messages data))) ''msg_deliveries''
          \<and> (r = None \<longrightarrow> rest = [])"
  using bulkInsertMsgDeliveries_cases [OF assms]
proof (elim disjE exE conjE)
  fix pre
  assume "r \<noteq> None" "trace w' = trace w @ pre" "list_all (allowed UNIV {}) pre"
  then show ?thesis by (auto simp: added_def insertedTables_allowed)
next
  fix tmpl w1 columns w2 maxAgentMsgID w3 cs pre
  assume c: "columns = tableColumns (db w) ''msg_deliveries''" "1 \<le> cs"
      "nat cs = rowsPerStatement (length columns)"
    and pre: "trace w3 = trace w @ pre" "list_all (allowed UNIV {}) pre"
    and loop: "chunkLoop (msgDeliveriesChunk e columns tmpl maxAgentMsgID) (bd_Messages data)
                 cs 0 w3 = Some (r, w')"
  have ext: "\<exists>tr. trace w' = trace w3 @ tr"
    using chunkLoop_extends [OF loop c(2) msgDeliveriesChunk_extends] by (rule extends_ex)
  have "\<exists>segs rest. list_all2 (\<lambda>x seg. seg = []) (bd_Messages data) segs
           \<and> insertedTables (added w w') @ rest = chunked (nat cs) ''msg_deliveries'' segs
           \<and> (r = None \<longrightarrow> rest = [])"
    using loop c(2)
  proof (rule stage_tables)
    fix i "end" chunk s b s1
    assume "msgDeliveriesChunk e columns tmpl maxAgentMsgID i end chunk s = (b, s1)"
    from simpleChunk_tables [OF this [unfolded msgDeliveriesChunk_def]]
    show "\<exists>segs. length segs \<le> length chunk
           \<and> list_all2 (\<lambda>x seg. seg = []) (take (length segs) chunk) segs
           \<and> ((insertedTables (trace s1)
                  = insertedTables (trace s) @ concat segs @ [''msg_deliveries'']
                \<and> length segs = length chunk)
               \<or> (b \<noteq> None \<and> insertedTables (trace s1) = insertedTables (trace s) @ concat segs))" .
  qed (use pre ext insertedTables_allowed in auto)
  then show ?thesis using quiet_tables c by fastforce
qed

lemma bulkInsertChatItems_tables:
  assumes "bulkInsertChatItems e data jsonDir contactID simplexFilesDir w = Some (r, w')"
  shows "\<exists>segs rest.
           list_all2 (\<lambda>m seg. seg \<in> set (fileTables (mi_Message m))) (bd_Messages data) segs
         \<and> insertedTables (added w w') @ rest
            = chunked (rowsPerStatement (length (tableColumns (db w) ''chat_items'')))
                ''chat_items'' segs
         \<and> (r = None \<longrightarrow> rest = [])"
  using bulkInsertChatItems_cases [OF assms]
proof (elim disjE exE conjE)
  fix pre
  assume q: "r \<noteq> None" "trace w' = trace w @ pre" "list_all (allowed UNIV {}) pre"
  have "list_all2 (\<lambda>m seg. seg \<in> set (fileTables (mi_Message m))) (bd_Messages data)
          (replicate (length (bd_Messages data)) [])"
    by (rule pad_valid) (simp add: fileTables_def)
  with q show ?thesis by (auto simp: added_def insertedTables_allowed)
next
  fix tmpl w1 columns w2 cs pre
  assume c: "columns = tableColumns (db w) ''chat_items''" "1 \<le> cs"
      "nat cs = rowsPerStatement (length columns)"
    and pre: "trace w2 = trace w @ pre" "list_all (allowed UNIV {}) pre"
    and loop: "chunkLoop (chatItemsChunk e jsonDir contactID simplexFilesDir columns tmpl)
                 (bd_Messages data) cs 0 w2 = Some (r, w')"
  have ext: "\<exists>tr. trace w' = trace w2 @ tr"
    using chunkLoop_extends [OF loop c(2) chatItemsChunk_extends] by (rule extends_ex)
  have "\<exists>segs rest.
           list_all2 (\<lambda>m seg. seg \<in> set (fileTables (mi_Message m))) (bd_Messages data) segs
           \<and> insertedTables (added w w') @ rest = chunked (nat cs) ''chat_items'' segs
           \<and> (r = None \<longrightarrow> rest = [])"
    using loop c(2)
  proof (rule stage_tables)
    fix i "end" chunk s b s1
    assume "chatItemsChunk e jsonDir contactID simplexFilesDir columns tmpl i end chunk s = (b, s1)"
    from chatItemsChunk_tables [OF this]
    show "\<exists>segs. length segs \<le> length chunk
           \<and> list_all2 (\<lambda>m seg. seg \<in> set (fileTables (mi_Message m)))
                (take (length segs) chunk) segs
           \<and> ((insertedTables (trace s1) = insertedTables (trace s) @ concat segs @ [''chat_items'']
                \<and> length segs = length chunk)
               \<or> (b \<noteq> None \<and> insertedTables (trace s1) = insertedTables (trace s) @ concat segs))" .
  next
    fix x :: MessageInsertData
    show "[] \<in> set (fileTables (mi_Message x))" by (simp add: fileTables_def)
  qed (use pre ext insertedTables_allowed in auto)
  then show ?thesis using c by auto
qed

section \<open>The claims\<close>

text \<open>
  C10. For every column count \<open>numColumns \<ge> 1\<close> and every \<open>maxParams\<close> (values
  \<open>\<le> 0\<close> are replaced by 900), \<open>calculateChunkSize\<close> returns an integer \<open>\<ge> 1\<close>, and
  the chunking loop that advances its index by that chunk size returns for every
  batch, every loop body and every state, also when the table has more columns than
  the parameter ceiling.
\<close>

theorem C10_chunk_size_positive_loop_terminates:
  assumes "1 \<le> numColumns"
  shows "\<exists>cs. calculateChunkSize numColumns maxParams = Inr cs \<and> 1 \<le> cs \<and>
           (\<forall>body xs s. \<exists>r. chunkLoop body (xs :: 'a list) cs 0 (s :: 's) = Some r)"
proof -
  obtain cs where cs: "calculateChunkSize numColumns maxParams = Inr cs" "1 \<le> cs"
    using calculateChunkSize_pos [OF assms] by blast
  have "\<exists>r. chunkLoop body xs cs 0 s = Some r"
    for body :: "int \<Rightarrow> int \<Rightarrow> 'a list \<Rightarrow> 's \<Rightarrow> error option \<times> 's" and xs s
    using chunkLoop_terminates [of cs 0 body xs s] cs(2) by auto
  with cs show ?thesis by blast
qed

theorem C10_chunk_size_positive_loop_terminates_witness:
  "(1::int) \<le> 1000 \<and>
   (\<exists>cs. calculateChunkSize 1000 900 = Inr cs \<and> 1 \<le> cs \<and>
      (\<forall>body xs s. \<exists>r. chunkLoop body (xs :: nat list) cs 0 (s :: nat) = Some r))"
  using C10_chunk_size_positive_loop_terminates [of 1000 900, where ?'a = nat and ?'s = nat]
  by simp

text \<open>
  C6 at a failing input. The table \<^verbatim>\<open>messages\<close> holds the key 5 and \<^verbatim>\<open>msg_deliveries\<close>
  the keys 6 and 10. Importing one message assigns it message id 6, and the delivery
  row gets \<^verbatim>\<open>msg_delivery_id\<close> 6 as well: a key that the delivery table already holds
  and that is below its pre-existing maximum.
\<close>

theorem C6_delivery_key_not_fresh:
  "map_option (\<lambda>(r, w'). (r, columnOf (db w') ''messages'' ''message_id'',
                                columnOf (db w') ''msg_deliveries'' ''msg_delivery_id''))
     (importExport demoEnv [lateOriginal] ''me'' ''dir'' 1 ''fdir'' demoWorld)
   = Some (None, [VInt 5, VInt 6], [VInt 6, VInt 10, VInt 6])"
  by code_simp

text \<open>
  C9. For a message with a resolved quoted message, the \<^verbatim>\<open>sent\<close> flag of the quote's
  \<^verbatim>\<open>msgRef\<close> inside the message body is always \<^verbatim>\<open>false\<close>, while the \<^verbatim>\<open>quoted_sent\<close>
  column of the chat-item row is 1 exactly when the quoted message is marked as sent,
  which the converter sets exactly when the author of the quoted message is the
  importing user. For a quote of the user's own message the two disagree.
\<close>

theorem C9_quote_sent_flags_disagree:
  assumes "um_QuotedMessage (mi_Message msgData) = Some q"
  shows "jpath (msgBody e jsonDir (mi_Message msgData)) [''params'', ''quote'', ''msgRef'', ''sent'']
           = JBool False
       \<and> (\<forall>columns templateRow row k.
            chatItemRow e jsonDir contactID columns templateRow msgData = Inr row
          \<and> k < length columns \<and> columns ! k = ''quoted_sent'' \<longrightarrow>
            row ! k = VInt (if q_IsSent q then 1 else 0))
       \<and> (\<forall>d myUsername m1 m2.
            ConvertDiscordMessage e d myUsername m1 m2 jsonDir = Inr (mi_Message msgData) \<longrightarrow>
            (\<exists>reference quotedDiscordMsg.
               d_Reference d = Some reference
             \<and> m2 (ref_MessageID reference) = Some quotedDiscordMsg
             \<and> q_IsSent q = (da_Name (d_Author quotedDiscordMsg) = myUsername)))"
proof (intro conjI allI impI)
  show "jpath (msgBody e jsonDir (mi_Message msgData)) [''params'', ''quote'', ''msgRef'', ''sent'']
           = JBool False"
    using assms by (rule msgBody_quote_sent)
next
  fix columns templateRow row k
  assume "chatItemRow e jsonDir contactID columns templateRow msgData = Inr row
          \<and> k < length columns \<and> columns ! k = ''quoted_sent''"
  with assms show "row ! k = VInt (if q_IsSent q then 1 else 0)"
    using chatItemRow_quoted_sent by blast
next
  fix d myUsername m1 m2
  assume "ConvertDiscordMessage e d myUsername m1 m2 jsonDir = Inr (mi_Message msgData)"
  from ConvertDiscordMessage_quote_sent [OF this assms]
  show "\<exists>reference quotedDiscordMsg.
               d_Reference d = Some reference
             \<and> m2 (ref_MessageID reference) = Some quotedDiscordMsg
             \<and> q_IsSent q = (da_Name (d_Author quotedDiscordMsg) = myUsername)" .
qed

theorem C9_quote_sent_flags_disagree_witness:
  "um_QuotedMessage (mi_Message convertedData) = Some quoteOfLater
   \<and> q_IsSent quoteOfLater
   \<and> jpath (msgBody demoEnv ''dir'' (mi_Message convertedData))
        [''params'', ''quote'', ''msgRef'', ''sent''] = JBool False
   \<and> chatItemRow demoEnv ''dir'' 1 [''chat_item_id'', ''quoted_sent''] [] convertedData
        = Inr [VInt 1, VInt 1]
   \<and> [VInt 1, VInt 1] ! 1 = VInt (if q_IsSent quoteOfLater then 1 else 0)
   \<and> ConvertDiscordMessage demoEnv earlyReply ''me''
        (fst (buildMappings [earlyReply, lateOriginal]))
        (snd (buildMappings [earlyReply, lateOriginal])) ''dir'' = Inr (mi_Message convertedData)
   \<and> (\<exists>reference quotedDiscordMsg.
         d_Reference earlyReply = Some reference
       \<and> snd (buildMappings [earlyReply, lateOriginal]) (ref_MessageID reference)
           = Some quotedDiscordMsg
       \<and> q_IsSent quoteOfLater = (da_Name (d_Author quotedDiscordMsg) = ''me''))"
proof -
  have a: "um_QuotedMessage (mi_Message convertedData) = Some quoteOfLater" by code_simp
  have s: "q_IsSent quoteOfLater" by code_simp
  have r: "chatItemRow demoEnv ''dir'' 1 [''chat_item_id'', ''quoted_sent''] [] convertedData
        = Inr [VInt 1, VInt 1]" by code_simp
  have k: "(1 :: nat) < length [''chat_item_id'', ''quoted_sent'']"
    "[''chat_item_id'', ''quoted_sent''] ! 1 = ''quoted_sent''" by simp_all
  have c: "ConvertDiscordMessage demoEnv earlyReply ''me''
        (fst (buildMappings [earlyReply, lateOriginal]))
        (snd (buildMappings [earlyReply, lateOriginal])) ''dir'' = Inr (mi_Message convertedData)"
    by code_simp
  note t = C9_quote_sent_flags_disagree [OF a, of demoEnv "''dir''" 1]
  note c1 = t [THEN conjunct1]
  note c2 = t [THEN conjunct2, THEN conjunct1]
  note c3 = t [THEN conjunct2, THEN conjunct2]
  from c2 r k have 2: "[VInt 1, VInt 1] ! 1 = VInt (if q_IsSent quoteOfLater then 1 else 0)"
    by blast
  from c3 c have 3: "\<exists>reference quotedDiscordMsg.
         d_Reference earlyReply = Some reference
       \<and> snd (buildMappings [earlyReply, lateOriginal]) (ref_MessageID reference)
           = Some quotedDiscordMsg
       \<and> q_IsSent quoteOfLater = (da_Name (d_Author quotedDiscordMsg) = ''me'')"
    by blast
  from a s c1 r 2 c 3 show ?thesis by blast
qed

end
